theory Spec2Isabelle
  imports Complex_Main
begin

section \<open>The entity model of \<^verbatim>\<open>api/models.py\<close>\<close>

text \<open>
  The source is a set of Django model classes. A model class is a record of its fields;
  a \<^verbatim>\<open>ForeignKey\<close> is the referenced row (or its key), \<^verbatim>\<open>null=True\<close> is an
  \<open>option\<close>. A \<^verbatim>\<open>DateTimeField\<close> holds a point in time, here a natural number read from
  a clock that every operation receives as an argument. Constructing a model instance
  gives each field the value passed for it or, failing that, the \<^verbatim>\<open>default=\<close> of
  its declaration: a constructor takes \<open>None\<close> for "not passed".
\<close>

type_synonym timestamp = nat
type_synonym uuid_t = nat

record Player =
  guest :: bool
  user :: "nat option"
  player_uuid :: uuid_t

definition Player_init :: "bool option \<Rightarrow> nat option \<Rightarrow> uuid_t \<Rightarrow> Player" where
  "Player_init g u fresh_uuid =
     \<lparr>guest = (case g of None \<Rightarrow> True | Some v \<Rightarrow> v), user = u, player_uuid = fresh_uuid\<rparr>"

text \<open>
  Python numbers: \<^verbatim>\<open>IntegerField\<close> values and ratings are \<open>int\<close>; the score and the
  expected score are Python floats. The two methods of \<^verbatim>\<open>Elo\<close> are modelled twice.

  In this section they are read in exact arithmetic: a float is a \<open>real\<close>, every
  operation of the source is the real operation of the same name, and no operation
  fails. This is the formula that the methods implement, and what the results in double
  precision are measured against.

  In the section on double precision they are modelled as the interpreter carries them
  out (\<open>get_expected_score_double\<close>, \<open>update_rating_double\<close>): every operation is
  rounded to a double, and \<^verbatim>\<open>10**x\<close>, the conversion of an int and \<^verbatim>\<open>round\<close> raise
  \<^verbatim>\<open>OverflowError\<close> where Python does.
\<close>

record Elo =
  rating :: int
  k_factor :: int
  wins :: int
  losses :: int
  draws :: int
  updated_at :: timestamp
  player :: "Player option"

definition Elo_init :: "int option \<Rightarrow> int option \<Rightarrow> timestamp \<Rightarrow> Player option \<Rightarrow> Elo" where
  "Elo_init r k now p =
     \<lparr>rating = (case r of None \<Rightarrow> 1200 | Some v \<Rightarrow> v),
      k_factor = (case k of None \<Rightarrow> 32 | Some v \<Rightarrow> v),
      wins = 0, losses = 0, draws = 0,
      updated_at = now,
      player = p\<rparr>"

text \<open>
  \<^verbatim>\<open>Elo._get_expected_score(self, opponent_rating)\<close>:
  \<^verbatim>\<open>return 1 / (1 + 10**((opponent_rating - self.rating) / 400))\<close>.
  in exact arithmetic. (An Isabelle name cannot start with an underscore.)
\<close>

definition get_expected_score :: "Elo \<Rightarrow> int \<Rightarrow> real" where
  "get_expected_score self opponent_rating =
     1 / (1 + 10 powr (real_of_int (opponent_rating - rating self) / 400))"

text \<open>
  Python 3's \<^verbatim>\<open>round(x)\<close> of a float, with one argument: the nearest integer, a tie
  going to the even neighbour.
\<close>

definition py_round :: "real \<Rightarrow> int" where
  "py_round x =
     (let f = \<lfloor>x\<rfloor>; r = x - of_int f
      in if r < 1 / 2 then f
         else if 1 / 2 < r then f + 1
         else if even f then f else f + 1)"

text \<open>
  \<^verbatim>\<open>Model.save()\<close>: the row written is the instance with every \<^verbatim>\<open>auto_now=True\<close>
  field set to the current time. The returned record is both the instance after the
  call and the row persisted.
\<close>

definition Elo_save :: "timestamp \<Rightarrow> Elo \<Rightarrow> Elo" where
  "Elo_save now self = self\<lparr>updated_at := now\<rparr>"

text \<open>
  \<^verbatim>\<open>Elo.update_rating(self, score, opponent_rating)\<close>:
  \<^verbatim>\<open>
    expected_score = self._get_expected_score(opponent_rating)
    self.rating = round(self.rating + self.k_factor * (score - expected_score))
    self.save()
  \<close>
  in exact arithmetic. The source has no \<^verbatim>\<open>raise\<close> and no check of its arguments, and
  no operation on real numbers fails: the model is a total function from the instance
  before the call to the instance after it.
\<close>

definition update_rating :: "real \<Rightarrow> int \<Rightarrow> timestamp \<Rightarrow> Elo \<Rightarrow> Elo" where
  "update_rating score opponent_rating now self =
     (let expected_score = get_expected_score self opponent_rating;
          self' = self\<lparr>rating :=
                    py_round (of_int (rating self)
                              + of_int (k_factor self) * (score - expected_score))\<rparr>
      in Elo_save now self')"

subsection \<open>Result, Board, Game, Claim\<close>

definition SCHEDULED :: string where "SCHEDULED = ''Scheduled''"
definition POSTPONED :: string where "POSTPONED = ''Postponed''"
definition FINISHED_NO_MOVES :: string where "FINISHED_NO_MOVES = ''Finished (no moves)''"
definition IN_PROGRESS :: string where "IN_PROGRESS = ''In progress''"
definition ADJOURNED :: string where "ADJOURNED = ''Adjourned''"
definition FINISHED_BASIC_RULES :: string where "FINISHED_BASIC_RULES = ''Finished (basic rules)''"
definition FINISHED_CLOCK :: string where "FINISHED_CLOCK = ''Finished (clock)''"
definition DRAW :: string where "DRAW = ''Draw''"
definition FINISHED_BREACH :: string where "FINISHED_BREACH = ''Finished (breach)''"
definition FINISHED_COMPLIANCE :: string where "FINISHED_COMPLIANCE = ''Finished (compliance)''"
definition TBD :: string where "TBD = ''TBD''"
definition ABANDONED :: string where "ABANDONED = ''Abandoned''"
definition UNKNOWN :: string where "UNKNOWN = ''Unknown''"

definition RESULT_CHOICES :: "(string \<times> string) list" where
  "RESULT_CHOICES =
     [(SCHEDULED, ''Scheduled''),
      (POSTPONED, ''Postponed''),
      (FINISHED_NO_MOVES, ''Finished without any moves played''),
      (IN_PROGRESS, ''In progress''),
      (ADJOURNED, ''Adjourned''),
      (FINISHED_BASIC_RULES, ''Finished according to the Basic Rules of Play''),
      (FINISHED_CLOCK, ''Finished by the clock''),
      (DRAW, ''Draw''),
      (FINISHED_BREACH, ''Finished because of a breach of rules of one player''),
      (FINISHED_COMPLIANCE,
       ''Finished because both players persistently refuse to comply with the laws of chess''),
      (TBD, ''To be decided''),
      (ABANDONED, ''Abandoned''),
      (UNKNOWN, ''Unknown'')]"

record Result =
  description :: string

text \<open>\<^verbatim>\<open>description = TextField(choices=RESULT_CHOICES, default=IN_PROGRESS)\<close>\<close>

definition Result_init :: "string option \<Rightarrow> Result" where
  "Result_init d = \<lparr>description = (case d of None \<Rightarrow> IN_PROGRESS | Some s \<Rightarrow> s)\<rparr>"

record Board =
  layout :: string
  board_updated_at :: timestamp

text \<open>
  \<^verbatim>\<open>layout = TextField(default="rnbqkbnr/pppppppp/8/8/8/8/PPPPPPPP/RNBQKBNR w KQkq - 0 1")\<close>
\<close>

definition Board_init :: "string option \<Rightarrow> timestamp \<Rightarrow> Board" where
  "Board_init l now =
     \<lparr>layout = (case l of
                  None \<Rightarrow> ''rnbqkbnr/pppppppp/8/8/8/8/PPPPPPPP/RNBQKBNR w KQkq - 0 1''
                | Some s \<Rightarrow> s),
      board_updated_at = now\<rparr>"

text \<open>
  \<^verbatim>\<open>Game\<close>: the key \<^verbatim>\<open>uuid\<close> defaults to a fresh \<^verbatim>\<open>uuid4()\<close>, which the constructor
  below receives; both players, the result and the board have no default and are passed
  by the caller; \<^verbatim>\<open>start_timestamp\<close> is \<^verbatim>\<open>auto_now_add\<close>, \<^verbatim>\<open>end_timestamp\<close> is null.
\<close>

record Game =
  uuid :: uuid_t
  whites_player :: Player
  blacks_player :: Player
  start_timestamp :: timestamp
  end_timestamp :: "timestamp option"
  result :: Result
  board :: Board

definition Game_init :: "uuid_t \<Rightarrow> Player \<Rightarrow> Player \<Rightarrow> Result \<Rightarrow> Board \<Rightarrow> timestamp \<Rightarrow> Game" where
  "Game_init u w b r bd now =
     \<lparr>uuid = u, whites_player = w, blacks_player = b,
      start_timestamp = now, end_timestamp = None,
      result = r, board = bd\<rparr>"

text \<open>\<^verbatim>\<open>Claim\<close>: the three kinds of claim and the field that holds one of them.\<close>

definition THREEFOLD_REPETITION :: string where "THREEFOLD_REPETITION = ''tr''"
definition FIFTY_MOVES :: string where "FIFTY_MOVES = ''ft''"
definition Claim_DRAW :: string where "Claim_DRAW = ''d''"

definition CLAIM_CHOICES :: "(string \<times> string) list" where
  "CLAIM_CHOICES =
     [(THREEFOLD_REPETITION, ''Threefold repetition''),
      (FIFTY_MOVES, ''Fifty moves''),
      (Claim_DRAW, ''Draw'')]"

record Claim =
  claim_type :: string

subsection \<open>Reading a layout string\<close>

text \<open>
  The source stores the layout as text and never takes it apart. The functions of this
  subsection read it the way the specification describes it: fields separated by single
  spaces, as Python's \<^verbatim>\<open>str.split(' ')\<close> yields them; in the placement field, ranks
  separated by \<^verbatim>\<open>/\<close>, a digit standing for that many empty squares and any other
  character for a piece.
\<close>

fun split_on :: "char \<Rightarrow> string \<Rightarrow> string list" where
  "split_on c [] = [[]]"
| "split_on c (x # xs) =
     (if x = c then [] # split_on c xs
      else (case split_on c xs of
              [] \<Rightarrow> [[x]]
            | w # ws \<Rightarrow> (x # w) # ws))"

definition fen_fields :: "string \<Rightarrow> string list" where
  "fen_fields l = split_on CHR '' '' l"

definition digit_of :: "char \<Rightarrow> nat option" where
  "digit_of c =
     (let n = (of_char c :: nat)
      in if 48 \<le> n \<and> n \<le> 57 then Some (n - 48) else None)"

fun expand_rank :: "string \<Rightarrow> char option list" where
  "expand_rank [] = []"
| "expand_rank (c # cs) =
     (case digit_of c of
        Some n \<Rightarrow> replicate n None @ expand_rank cs
      | None \<Rightarrow> Some c # expand_rank cs)"

definition decode_placement :: "string \<Rightarrow> char option list list" where
  "decode_placement p = map expand_rank (split_on CHR ''/'' p)"

text \<open>
  The starting position of chess, rank 8 first: black's pieces (lower case) and pawns,
  four empty ranks, white's pawns and pieces (upper case).
\<close>

definition standard_start :: "char option list list" where
  "standard_start =
     [map Some ''rnbqkbnr'', map Some ''pppppppp'',
      replicate 8 None, replicate 8 None, replicate 8 None, replicate 8 None,
      map Some ''PPPPPPPP'', map Some ''RNBQKBNR'']"

fun parse_digits :: "nat \<Rightarrow> string \<Rightarrow> nat option" where
  "parse_digits acc [] = Some acc"
| "parse_digits acc (c # cs) =
     (case digit_of c of
        None \<Rightarrow> None
      | Some d \<Rightarrow> parse_digits (10 * acc + d) cs)"

definition parse_nat :: "string \<Rightarrow> nat option" where
  "parse_nat s = (if s = [] then None else parse_digits 0 s)"

definition halfmove_clock :: "Board \<Rightarrow> nat option" where
  "halfmove_clock b =
     (case fen_fields (layout b) of
        [placement, side, castling, en_passant, halfmove, fullmove] \<Rightarrow> parse_nat halfmove
      | _ \<Rightarrow> None)"

subsection \<open>Claim adjudication\<close>

datatype ClaimResult = Upheld | Rejected

text \<open>
  Modelled from the spec: the adjudication of a fifty-move claim (the specification's
  \<^verbatim>\<open>evaluate(game, claim_item)\<close> for a claim of kind \<^verbatim>\<open>FiftyMoves\<close>). The repository
  declares the kinds of claim (\<^verbatim>\<open>Claim\<close>, \<^verbatim>\<open>ClaimItem\<close>) and has no code that evaluates
  one. The specification: "upheld iff the Board's halfmove clock at the time of the claim
  is \<open>\<ge>\<close> 100". A claim of another kind, or a board whose layout has no halfmove clock,
  has no verdict here.
\<close>

definition evaluate :: "Game \<Rightarrow> Claim \<Rightarrow> ClaimResult option" where
  "evaluate game claim =
     (if claim_type claim = FIFTY_MOVES
      then (case halfmove_clock (board game) of
              None \<Rightarrow> None
            | Some n \<Rightarrow> Some (if 100 \<le> n then Upheld else Rejected))
      else None)"

subsection \<open>Creating a game\<close>

text \<open>
  Modelled from the spec: \<^verbatim>\<open>CreateGame(whitePlayer, blackPlayer) -> Game\<close>, the operation
  that creates a game. The repository declares the model classes and has no code that
  constructs a \<^verbatim>\<open>Game\<close>. The specification: "Board initialized to standard layout,
  Result = Scheduled". The game is built with the constructors of the source: a Result
  with the description \<^verbatim>\<open>SCHEDULED\<close>, a Board with the default layout, and the fresh key
  and the time of the call that \<^verbatim>\<open>Game\<close> takes.
\<close>

definition CreateGame :: "uuid_t \<Rightarrow> Player \<Rightarrow> Player \<Rightarrow> timestamp \<Rightarrow> Game" where
  "CreateGame fresh_uuid whitePlayer blackPlayer now =
     Game_init fresh_uuid whitePlayer blackPlayer
       (Result_init (Some SCHEDULED)) (Board_init None now) now"

subsection \<open>Double precision\<close>

text \<open>
  The reading of \<^verbatim>\<open>_get_expected_score\<close> and \<^verbatim>\<open>update_rating\<close> in the arithmetic the
  interpreter uses: a Python float is an IEEE 754 double, and the result of an operation
  is the exact result rounded to the nearest double, a tie going to the even significand.
  A finite double is modelled by the real number it stands for.

  \<open>to_double\<close> rounds a real number to 53 significant bits, or to a multiple of
  \<open>2 powr - 1074\<close> below the normal range; its exponent is unbounded above, and a
  rounded result beyond \<open>max_double\<close> stands for an infinity.
\<close>

definition ulp_exponent :: "real \<Rightarrow> int" where
  "ulp_exponent x = max \<lfloor>log 2 \<bar>x\<bar>\<rfloor> (- 1022) - 52"

definition to_double :: "real \<Rightarrow> real" where
  "to_double x =
     (if x = 0 then 0
      else of_int (py_round (x / 2 powr of_int (ulp_exponent x))) * 2 powr of_int (ulp_exponent x))"

definition max_double :: real where
  "max_double = (2 ^ 53 - 1) * 2 ^ 971"

text \<open>
  The operations, as Python evaluates them:
  \<^item> \<^verbatim>\<open>a / b\<close> on two ints is the correctly rounded quotient, and raises
    \<^verbatim>\<open>ZeroDivisionError\<close> for \<open>b = 0\<close> and \<^verbatim>\<open>OverflowError\<close> when the quotient is too
    large for a float;
  \<^item> an int that meets a float in \<^verbatim>\<open>+\<close>, \<^verbatim>\<open>-\<close>, \<^verbatim>\<open>*\<close> or \<^verbatim>\<open>/\<close> is converted to the
    nearest double first, with \<^verbatim>\<open>OverflowError\<close> when it is too large;
  \<^item> \<^verbatim>\<open>10 ** x\<close> with a float \<open>x\<close> converts the base and calls the \<^verbatim>\<open>pow\<close> of the C
    library, raising \<^verbatim>\<open>OverflowError\<close> when the result is out of range and none when
    it underflows. The library is not part of the repository: the functions below take
    its \<^verbatim>\<open>pow\<close> as the argument \<open>pw\<close>;
  \<^item> sums, differences and products of floats are rounded and raise nothing: a result
    out of range is an infinity, which stays one in the sum that follows;
  \<^item> \<^verbatim>\<open>1 / z\<close> raises \<^verbatim>\<open>ZeroDivisionError\<close> for \<open>z = 0\<close>;
  \<^item> \<^verbatim>\<open>round\<close> of a finite float is the nearest int, a tie going to the even one, and
    \<^verbatim>\<open>round\<close> of an infinity raises \<^verbatim>\<open>OverflowError\<close>.
\<close>

datatype py_error = OverflowError | ZeroDivisionError

definition int_truediv :: "int \<Rightarrow> int \<Rightarrow> py_error + real" where
  "int_truediv a b =
     (if b = 0 then Inl ZeroDivisionError
      else let q = to_double (of_int a / of_int b)
           in if max_double < \<bar>q\<bar> then Inl OverflowError else Inr q)"

definition int_to_float :: "int \<Rightarrow> py_error + real" where
  "int_to_float n =
     (let f = to_double (of_int n)
      in if max_double < \<bar>f\<bar> then Inl OverflowError else Inr f)"

definition float_pow :: "(real \<Rightarrow> real \<Rightarrow> real) \<Rightarrow> real \<Rightarrow> real \<Rightarrow> py_error + real" where
  "float_pow pw b x =
     (let p = pw b x
      in if max_double < \<bar>p\<bar> then Inl OverflowError else Inr p)"

definition float_add :: "real \<Rightarrow> real \<Rightarrow> real" where
  "float_add a b = to_double (a + b)"

definition float_truediv :: "real \<Rightarrow> real \<Rightarrow> py_error + real" where
  "float_truediv a b = (if b = 0 then Inl ZeroDivisionError else Inr (to_double (a / b)))"

text \<open>
  What is required of the library's \<^verbatim>\<open>pow\<close>: \<^verbatim>\<open>pow(10, 0)\<close> is 1, no result is
  negative, and a result is within four units in the last place of the power (within
  the smallest positive double where the power underflows). \<open>pow_rounded\<close> is the
  \<^verbatim>\<open>pow\<close> that rounds correctly.
\<close>

definition pow_accurate :: "(real \<Rightarrow> real \<Rightarrow> real) \<Rightarrow> bool" where
  "pow_accurate pw \<longleftrightarrow>
     pw 10 0 = 1
     \<and> (\<forall>x. 0 \<le> pw 10 x
             \<and> \<bar>pw 10 x - 10 powr x\<bar> \<le> 2 powr (- 50) * 10 powr x + 2 powr (- 1074))"

definition pow_rounded :: "real \<Rightarrow> real \<Rightarrow> real" where
  "pow_rounded b x = to_double (b powr x)"

text \<open>
  \<^verbatim>\<open>_get_expected_score\<close>:
  \<^verbatim>\<open>return 1 / (1 + 10**((opponent_rating - self.rating) / 400))\<close>.
  The sum \<^verbatim>\<open>1 + p\<close> is finite, since \<open>p\<close> is.
\<close>

definition get_expected_score_double ::
  "(real \<Rightarrow> real \<Rightarrow> real) \<Rightarrow> Elo \<Rightarrow> int \<Rightarrow> py_error + real" where
  "get_expected_score_double pw self opponent_rating =
     (case int_truediv (opponent_rating - rating self) 400 of
        Inl e \<Rightarrow> Inl e
      | Inr x \<Rightarrow>
          (case float_pow pw 10 x of
             Inl e \<Rightarrow> Inl e
           | Inr p \<Rightarrow> float_truediv 1 (float_add 1 p)))"

text \<open>
  \<^verbatim>\<open>update_rating\<close>:
  \<^verbatim>\<open>
    expected_score = self._get_expected_score(opponent_rating)
    self.rating = round(self.rating + self.k_factor * (score - expected_score))
    self.save()
  \<close>
  The score is an int or a finite float, given as the real number it stands for: the
  subtraction converts an int, and the conversion changes no float. The difference of a
  finite float and an expected score is finite. An exception leaves the instance as it
  was: nothing is assigned and nothing saved.
\<close>

definition update_rating_double ::
  "(real \<Rightarrow> real \<Rightarrow> real) \<Rightarrow> real \<Rightarrow> int \<Rightarrow> timestamp \<Rightarrow> Elo \<Rightarrow> py_error + Elo" where
  "update_rating_double pw score opponent_rating now self =
     (case get_expected_score_double pw self opponent_rating of
        Inl e \<Rightarrow> Inl e
      | Inr expected_score \<Rightarrow>
          (let s = to_double score
           in if max_double < \<bar>s\<bar> then Inl OverflowError
              else (case int_to_float (k_factor self) of
                      Inl e \<Rightarrow> Inl e
                    | Inr k \<Rightarrow>
                        (case int_to_float (rating self) of
                           Inl e \<Rightarrow> Inl e
                         | Inr r \<Rightarrow>
                             (let product = to_double (k * to_double (s - expected_score));
                                  total = to_double (r + product)
                              in if max_double < \<bar>product\<bar> \<or> max_double < \<bar>total\<bar>
                                 then Inl OverflowError
                                 else Inr (Elo_save now (self\<lparr>rating := py_round total\<rparr>)))))))"

text \<open>
  The values an \<^verbatim>\<open>IntegerField\<close> holds on every database backend.
\<close>

definition in_IntegerField :: "int \<Rightarrow> bool" where
  "in_IntegerField n \<longleftrightarrow> - 2147483648 \<le> n \<and> n \<le> 2147483647"

section \<open>Rounding\<close>

lemma py_round_of_int: "py_round (of_int n) = n"
  by (simp add: py_round_def)

lemma py_round_nearest: "\<bar>of_int (py_round x) - x\<bar> \<le> 1 / 2"
  unfolding py_round_def Let_def by (auto; linarith)

lemma py_round_unique:
  assumes "\<bar>of_int m - x\<bar> < 1 / 2"
  shows "py_round x = m"
proof -
  have "\<bar>of_int (py_round x) - x\<bar> \<le> 1 / 2" by (rule py_round_nearest)
  with assms have "\<bar>real_of_int (py_round x) - of_int m\<bar> < 1" by linarith
  then have "\<bar>real_of_int (py_round x - m)\<bar> < 1" by simp
  then have "\<bar>py_round x - m\<bar> < 1" by linarith
  then show ?thesis by linarith
qed

lemma py_round_tie:
  assumes "x = of_int f + 1 / 2"
  shows "py_round x = (if even f then f else f + 1)"
proof -
  have "\<lfloor>x\<rfloor> = f" using assms by linarith
  then show ?thesis using assms by (simp add: py_round_def)
qed

text \<open>Adding an integer shifts the result, except at a tie, where parity decides.\<close>

lemma py_round_add_int:
  "py_round (of_int n + y) =
     n + (if frac y = 1 / 2 \<and> odd n
          then (if even \<lfloor>y\<rfloor> then \<lfloor>y\<rfloor> + 1 else \<lfloor>y\<rfloor>)
          else py_round y)"
proof -
  have fl: "\<lfloor>of_int n + y\<rfloor> = n + \<lfloor>y\<rfloor>" by simp
  show ?thesis
    unfolding py_round_def Let_def fl frac_def by auto
qed

lemma py_round_add_even: "even n \<Longrightarrow> py_round (of_int n + y) = n + py_round y"
  by (simp add: py_round_add_int)

lemma py_round_add_nontie: "frac y \<noteq> 1 / 2 \<Longrightarrow> py_round (of_int n + y) = n + py_round y"
  by (simp add: py_round_add_int)

text \<open>Rounding half to even is symmetric about zero.\<close>

lemma py_round_minus: "py_round (- x) = - py_round x"
proof (cases "frac x = 1 / 2")
  case True
  then have x: "x = of_int \<lfloor>x\<rfloor> + 1 / 2" by (simp add: frac_def)
  then have mx: "- x = of_int (- \<lfloor>x\<rfloor> - 1) + 1 / 2" by simp
  show ?thesis
    unfolding py_round_tie [OF mx] using py_round_tie [OF x] by auto
next
  case False
  have "\<bar>of_int (py_round x) - x\<bar> \<le> 1 / 2" by (rule py_round_nearest)
  moreover have "\<bar>of_int (py_round x) - x\<bar> \<noteq> 1 / 2"
    using False unfolding py_round_def Let_def frac_def by (auto; linarith)
  ultimately have "\<bar>of_int (py_round x) - x\<bar> < 1 / 2" by linarith
  then have "\<bar>of_int (- py_round x) - (- x)\<bar> < 1 / 2" by (simp add: abs_minus_commute)
  then show ?thesis by (rule py_round_unique)
qed

section \<open>The expected score\<close>

lemma expected_score_pos: "0 < get_expected_score e opp"
  unfolding get_expected_score_def
  by (simp add: add_pos_nonneg)

lemma expected_score_less_one: "get_expected_score e opp < 1"
proof -
  have "0 < 10 powr (real_of_int (opp - rating e) / 400)" by simp
  then show ?thesis
    unfolding get_expected_score_def by (simp only: field_simps) simp
qed

lemma expected_score_complement:
  "get_expected_score e1 (rating e2) + get_expected_score e2 (rating e1) = 1"
proof -
  define x where "x = 10 powr (real_of_int (rating e2 - rating e1) / 400)"
  have x_pos: "0 < x" by (simp add: x_def)
  have "real_of_int (rating e1 - rating e2) = - real_of_int (rating e2 - rating e1)"
    by simp
  then have "real_of_int (rating e1 - rating e2) / 400 = - (real_of_int (rating e2 - rating e1) / 400)"
    by (simp only: minus_divide_left)
  then have inv: "10 powr (real_of_int (rating e1 - rating e2) / 400) = 1 / x"
    unfolding x_def by (simp only: powr_minus_divide)
  have "1 / (1 + x) + 1 / (1 + 1 / x) = 1"
    using x_pos by (simp add: field_simps)
  then show ?thesis
    unfolding get_expected_score_def inv x_def [symmetric] .
qed

text \<open>
  The winner's gain \<open>K * (1 - E)\<close> is never half-way between two integers when the
  ratings differ: it would make \<open>10 powr (d / 400)\<close> a quotient \<open>p / q\<close> of odd
  integers, and \<open>10 ^ d * q ^ 400 = p ^ 400\<close> has an even and an odd side.
\<close>

lemma gain_no_tie:
  fixes d K :: int
  assumes d: "d \<noteq> 0"
  shows "frac (of_int K * (1 - 1 / (1 + 10 powr (real_of_int d / 400)))) \<noteq> 1 / 2"
proof
  define x where "x = 10 powr (real_of_int d / 400)"
  define f where "f = \<lfloor>of_int K * (1 - 1 / (1 + x))\<rfloor>"
  define p where "p = 2 * f + 1"
  define q where "q = 2 * K - 2 * f - 1"
  assume "frac (of_int K * (1 - 1 / (1 + 10 powr (real_of_int d / 400)))) = 1 / 2"
  then have tie: "of_int K * (1 - 1 / (1 + x)) = of_int f + 1 / 2"
    unfolding frac_def f_def x_def by linarith
  have x_pos: "0 < x" by (simp add: x_def)
  have "1 - 1 / (1 + x) = x / (1 + x)"
    using x_pos by (simp add: field_simps)
  with tie have "of_int K * (x / (1 + x)) = of_int f + 1 / 2" by simp
  then have "2 * of_int K * x = (2 * of_int f + 1) * (1 + x)"
    using x_pos by (simp add: field_simps)
  then have eq: "x * of_int q = of_int p"
    by (simp add: p_def q_def algebra_simps)
  have odd_p: "odd p" by (simp add: p_def)
  have odd_q: "odd q" by (simp add: q_def)
  have x400: "x ^ 400 = 10 powr (real_of_int d)"
    unfolding x_def by (simp add: powr_power)
  have "(x * of_int q) ^ 400 = (of_int p :: real) ^ 400" using eq by simp
  then have pw: "10 powr (real_of_int d) * of_int (q ^ 400) = of_int (p ^ 400)"
    by (simp add: power_mult_distrib x400)
  show False
  proof (cases "0 < d")
    case True
    then have "10 powr (real_of_int d) = (10::real) ^ nat d"
      by (simp add: powr_real_of_int)
    with pw have "real_of_int (10 ^ nat d * q ^ 400) = of_int (p ^ 400)" by simp
    then have "10 ^ nat d * q ^ 400 = p ^ 400" by (simp only: of_int_eq_iff)
    moreover have "even ((10::int) ^ nat d * q ^ 400)" using True by simp
    moreover have "odd (p ^ 400)" using odd_p by simp
    ultimately show False by simp
  next
    case False
    with d have neg: "d < 0" by simp
    then have "10 powr (real_of_int d) = 1 / (10::real) ^ nat (- d)"
      by (simp add: powr_real_of_int field_simps)
    with pw have "real_of_int (q ^ 400) = of_int (10 ^ nat (- d) * p ^ 400)"
      by (simp add: field_simps)
    then have "q ^ 400 = 10 ^ nat (- d) * p ^ 400" by (simp only: of_int_eq_iff)
    moreover have "even ((10::int) ^ nat (- d) * p ^ 400)" using neg by simp
    moreover have "odd (q ^ 400)" using odd_q by simp
    ultimately show False by simp
  qed
qed

lemma rating_delta_zero_sum:
  assumes k: "k_factor e1 = k_factor e2"
  shows "rating (update_rating 1 (rating e2) t1 e1) - rating e1
         = - (rating (update_rating 0 (rating e1) t2 e2) - rating e2)"
proof -
  define g where "g = of_int (k_factor e1) * (1 - get_expected_score e1 (rating e2))"
  have compl: "get_expected_score e2 (rating e1) = 1 - get_expected_score e1 (rating e2)"
    using expected_score_complement [of e1 e2] by simp
  have new1: "rating (update_rating 1 (rating e2) t1 e1) = py_round (of_int (rating e1) + g)"
    by (simp add: update_rating_def Elo_save_def g_def)
  have "rating (update_rating 0 (rating e1) t2 e2)
          = py_round (of_int (rating e2) + of_int (k_factor e2) * (0 - get_expected_score e2 (rating e1)))"
    by (simp add: update_rating_def Elo_save_def)
  also have "of_int (rating e2) + of_int (k_factor e2) * (0 - get_expected_score e2 (rating e1))
          = - (of_int (- rating e2) + g)"
    by (simp add: g_def compl k [symmetric] algebra_simps)
  finally have new2: "rating (update_rating 0 (rating e1) t2 e2) = - py_round (of_int (- rating e2) + g)"
    by (simp only: py_round_minus)
  show ?thesis
  proof (cases "rating e2 = rating e1")
    case True
    have "py_round (of_int (rating e1) + g) = py_round (of_int (2 * rating e1) + (of_int (- rating e1) + g))"
      by simp
    also have "\<dots> = 2 * rating e1 + py_round (of_int (- rating e1) + g)"
      by (rule py_round_add_even) simp
    finally have "py_round (of_int (rating e1) + g) = 2 * rating e1 + py_round (of_int (- rating e1) + g)" .
    then show ?thesis unfolding new1 new2 using True by simp
  next
    case False
    then have "rating e2 - rating e1 \<noteq> 0" by simp
    then have nt: "frac g \<noteq> 1 / 2"
      unfolding g_def get_expected_score_def by (rule gain_no_tie)
    show ?thesis
      unfolding new1 new2 py_round_add_nontie [OF nt] by simp
  qed
qed




section \<open>Rounding to a double\<close>

lemma py_round_ge: "of_int n \<le> t \<Longrightarrow> n \<le> py_round t"
proof -
  assume "of_int n \<le> t"
  then have "n \<le> \<lfloor>t\<rfloor>" by (simp add: le_floor_iff)
  moreover have "\<lfloor>t\<rfloor> \<le> py_round t" by (simp add: py_round_def Let_def)
  ultimately show ?thesis by simp
qed

lemma py_round_le: "t \<le> of_int n \<Longrightarrow> py_round t \<le> n"
  using py_round_ge [of "- n" "- t"] by (simp add: py_round_minus)

lemma ulp_exponent_binade:
  assumes "2 powr of_int k \<le> \<bar>x\<bar>" and "\<bar>x\<bar> < 2 powr (of_int k + 1)" and "- 1022 \<le> k"
  shows "ulp_exponent x = k - 52"
proof -
  have pos: "0 < \<bar>x\<bar>" using assms(1) by (smt (verit) powr_gt_zero)
  have "\<lfloor>log 2 \<bar>x\<bar>\<rfloor> = k"
    using assms(1,2) pos by (simp add: floor_log_eq_powr_iff)
  then show ?thesis using assms(3) by (simp add: ulp_exponent_def)
qed

lemma to_double_binade:
  assumes lo: "2 powr of_int k \<le> x" and hi: "x < 2 powr (of_int k + 1)" and k: "- 1022 \<le> k"
  shows "2 powr of_int k \<le> to_double x \<and> to_double x \<le> 2 powr (of_int k + 1)"
proof -
  have x_pos: "0 < x" using lo by (smt (verit) powr_gt_zero)
  then have ue: "ulp_exponent x = k - 52"
    using ulp_exponent_binade [of k x] lo hi k by simp
  define u :: real where "u = 2 powr of_int (k - 52)"
  have u_pos: "0 < u" by (simp add: u_def)
  have uk: "2 ^ 52 * u = 2 powr of_int k"
    unfolding u_def by (simp add: powr_diff)
  have uk1: "2 ^ 53 * u = 2 powr (of_int k + 1)"
    unfolding u_def by (simp add: powr_diff powr_add)
  have td: "to_double x = of_int (py_round (x / u)) * u"
    using x_pos by (simp add: to_double_def ue u_def)
  have "of_int (2 ^ 52) \<le> x / u"
    using lo u_pos uk by (simp add: pos_le_divide_eq)
  then have "2 ^ 52 \<le> py_round (x / u)" by (rule py_round_ge)
  then have "(2 ^ 52 :: real) \<le> of_int (py_round (x / u))"
    by (metis of_int_le_iff of_int_numeral of_int_power)
  then have a: "2 ^ 52 * u \<le> of_int (py_round (x / u)) * u"
    using u_pos by simp
  have "x / u \<le> of_int (2 ^ 53)"
    using hi u_pos uk1 by (simp add: pos_divide_le_eq)
  then have "py_round (x / u) \<le> 2 ^ 53" by (rule py_round_le)
  then have "of_int (py_round (x / u)) \<le> (2 ^ 53 :: real)"
    by (metis of_int_le_iff of_int_numeral of_int_power)
  then have b: "of_int (py_round (x / u)) * u \<le> 2 ^ 53 * u"
    using u_pos by simp
  show ?thesis using a b unfolding td uk uk1 by simp
qed

lemma to_double_nonneg: "0 \<le> x \<Longrightarrow> 0 \<le> to_double x"
proof -
  assume x: "0 \<le> x"
  have "0 \<le> x / 2 powr of_int (ulp_exponent x)" using x by simp
  then have "of_int 0 \<le> x / 2 powr of_int (ulp_exponent x)" by simp
  then have "0 \<le> py_round (x / 2 powr of_int (ulp_exponent x))" by (rule py_round_ge)
  then show ?thesis by (simp add: to_double_def)
qed

lemma to_double_exact:
  assumes k: "- 1022 \<le> k" and m: "2 ^ 52 \<le> \<bar>m\<bar>" "\<bar>m\<bar> < 2 ^ 53"
  shows "to_double (of_int m * 2 powr of_int (k - 52)) = of_int m * 2 powr of_int (k - 52)"
proof -
  define u :: real where "u = 2 powr of_int (k - 52)"
  have u_pos: "0 < u" by (simp add: u_def)
  have uk: "2 ^ 52 * u = 2 powr of_int k"
    unfolding u_def by (simp add: powr_diff)
  have uk1: "2 ^ 53 * u = 2 powr (of_int k + 1)"
    unfolding u_def by (simp add: powr_diff powr_add)
  have abs: "\<bar>of_int m * u\<bar> = of_int \<bar>m\<bar> * u" using u_pos by (simp add: abs_mult)
  have "(2 ^ 52 :: real) \<le> of_int \<bar>m\<bar>"
    using m(1) by (metis of_int_le_iff of_int_numeral of_int_power)
  then have lo: "2 powr of_int k \<le> \<bar>of_int m * u\<bar>"
    unfolding abs uk [symmetric] using u_pos by simp
  have "of_int \<bar>m\<bar> < (2 ^ 53 :: real)"
    using m(2) by (metis of_int_less_iff of_int_numeral of_int_power)
  then have hi: "\<bar>of_int m * u\<bar> < 2 powr (of_int k + 1)"
    unfolding abs uk1 [symmetric] using u_pos by simp
  have ue: "ulp_exponent (of_int m * u) = k - 52"
    using lo hi k by (rule ulp_exponent_binade)
  have nz: "of_int m * u \<noteq> 0" using m(1) u_pos by auto
  have q: "of_int m * u / u = of_int m" using u_pos by simp
  have "to_double (of_int m * u) = of_int (py_round (of_int m * u / u)) * u"
    unfolding to_double_def ue u_def [symmetric] using nz by simp
  then have "to_double (of_int m * u) = of_int m * u"
    unfolding q py_round_of_int .
  then show ?thesis unfolding u_def .
qed

lemma to_double_one: "to_double 1 = 1"
  using to_double_exact [of 0 "2 ^ 52"] by (simp add: powr_minus_divide)

lemma to_double_minus_20: "to_double (- 20) = - 20"
  using to_double_exact [of 4 "- 5 * 2 ^ 50"] by (simp add: powr_minus_divide)

lemma to_double_near_one:
  assumes "0 \<le> y" and "y \<le> 2 powr (- 54)"
  shows "to_double (1 + y) = 1"
proof -
  have y1: "y < 1" using assms(2) by (smt (verit) powr_less_cancel_iff powr_zero_eq_one)
  have "2 powr of_int 0 \<le> \<bar>1 + y\<bar>" using assms(1) by simp
  moreover have "\<bar>1 + y\<bar> < 2 powr (of_int 0 + 1)" using assms(1) y1 by simp
  ultimately have ue: "ulp_exponent (1 + y) = 0 - 52"
    by (rule ulp_exponent_binade) simp
  define u :: real where "u = 2 powr (- 52)"
  have u_pos: "0 < u" by (simp add: u_def)
  have u52: "2 ^ 52 * u = 1" by (simp add: u_def powr_minus_divide)
  have "y / u = y * 2 ^ 52" by (simp add: u_def powr_minus_divide)
  moreover have "y * 2 ^ 52 \<le> 2 powr (- 54) * 2 ^ 52" using assms(2) by simp
  moreover have "2 powr (- 54) * 2 ^ 52 = (1 / 4 :: real)" by (simp add: powr_minus_divide)
  ultimately have yu: "y / u \<le> 1 / 4" by simp
  have "0 \<le> y / u" using assms(1) u_pos by simp
  have "(1 + y) / u = 2 ^ 52 + y / u"
    using u52 u_pos by (simp add: field_simps)
  then have "\<bar>of_int (2 ^ 52) - (1 + y) / u\<bar> < 1 / 2"
    using yu \<open>0 \<le> y / u\<close> by simp
  then have r: "py_round ((1 + y) / u) = 2 ^ 52" by (rule py_round_unique)
  have "1 + y \<noteq> 0" using assms(1) by simp
  then have "to_double (1 + y) = of_int (py_round ((1 + y) / u)) * u"
    unfolding to_double_def ue u_def by simp
  then show ?thesis unfolding r using u52 by simp
qed

lemma ten_powr_minus_20: "2 powr (- 67) \<le> (10::real) powr (- 20)" "(10::real) powr (- 20) < 2 powr (- 66)"
  by (simp_all add: powr_minus_divide)

lemma to_double_ge_one:
  assumes "1 \<le> x"
  shows "1 \<le> to_double x"
proof -
  define k where "k = \<lfloor>log 2 x\<rfloor>"
  have x_pos: "0 < x" using assms by simp
  have "0 \<le> log 2 x" using assms by simp
  then have k0: "0 \<le> k" by (simp add: k_def)
  have "2 powr of_int k \<le> x \<and> x < 2 powr (of_int k + 1)"
    using x_pos floor_log_eq_powr_iff [of x 2 k] by (simp add: k_def)
  then have "2 powr of_int k \<le> to_double x"
    using to_double_binade [of k x] k0 by simp
  moreover have "(1::real) \<le> 2 powr of_int k"
    using k0 by (simp add: ge_one_powr_ge_zero)
  ultimately show ?thesis by simp
qed

lemma to_double_le_one:
  assumes "0 \<le> x" and "x \<le> 1"
  shows "to_double x \<le> 1"
proof -
  consider "x = 0" | "x = 1" | "0 < x" "x < 1" using assms by fastforce
  then show ?thesis
  proof cases
    case 1
    then show ?thesis by (simp add: to_double_def)
  next
    case 2
    then show ?thesis by (simp add: to_double_one)
  next
    case 3
    define k where "k = \<lfloor>log 2 x\<rfloor>"
    have "log 2 x < 0" using 3 by simp
    then have k_neg: "k < 0" by (simp add: k_def floor_less_iff)
    have bin: "2 powr of_int k \<le> x \<and> x < 2 powr (of_int k + 1)"
      using 3(1) floor_log_eq_powr_iff [of x 2 k] by (simp add: k_def)
    have le1: "2 powr (of_int k + 1) \<le> (1::real)"
    proof -
      have "real_of_int k + 1 \<le> 0" using k_neg by linarith
      then have "2 powr (of_int k + 1) \<le> (2::real) powr 0" by (intro powr_mono) simp_all
      then show ?thesis by simp
    qed
    show ?thesis
    proof (cases "- 1022 \<le> k")
      case True
      then have "to_double x \<le> 2 powr (of_int k + 1)"
        using to_double_binade [of k x] bin by simp
      then show ?thesis using le1 by linarith
    next
      case False
      then have ue: "ulp_exponent x = - 1074"
        using 3 by (simp add: ulp_exponent_def k_def)
      define u :: real where "u = 2 powr (- 1074)"
      have u_pos: "0 < u" by (simp add: u_def)
      have "real_of_int k + 1 \<le> - 1022" using False by linarith
      then have "2 powr (of_int k + 1) \<le> (2::real) powr (- 1022)" by (intro powr_mono) simp_all
      moreover have "x < 2 powr (of_int k + 1)" using bin by (rule conjunct2)
      ultimately have "x \<le> 2 powr (- 1022)" by linarith
      moreover have "(2::real) powr (- 1022) = 2 ^ 52 * u"
        by (simp add: u_def powr_minus_divide)
      ultimately have "x / u \<le> of_int (2 ^ 52)"
        using u_pos by (simp add: pos_divide_le_eq)
      then have "py_round (x / u) \<le> 2 ^ 52" by (rule py_round_le)
      then have "of_int (py_round (x / u)) \<le> (2 ^ 52 :: real)"
        by (metis of_int_le_iff of_int_numeral of_int_power)
      then have "of_int (py_round (x / u)) * u \<le> 2 ^ 52 * u"
        using u_pos by simp
      moreover have "to_double x = of_int (py_round (x / u)) * u"
        using 3(1) by (simp add: to_double_def ue u_def)
      moreover have "2 ^ 52 * u \<le> (1::real)"
        by (simp add: u_def powr_minus_divide)
      ultimately show ?thesis by simp
    qed
  qed
qed

lemma to_double_zero: "to_double 0 = 0"
  by (simp add: to_double_def)

lemma to_double_two: "to_double 2 = 2"
  using to_double_exact [of 1 "2 ^ 52"] by (simp add: powr_minus_divide)

lemma to_double_half: "to_double (1 / 2) = 1 / 2"
  using to_double_exact [of "- 1" "2 ^ 52"] by (simp add: powr_minus_divide)

lemma to_double_ge_pow2:
  assumes "2 powr of_int k \<le> x" and "- 1022 \<le> k"
  shows "2 powr of_int k \<le> to_double x"
proof -
  define j where "j = \<lfloor>log 2 x\<rfloor>"
  have x_pos: "0 < x" using assms(1) by (smt (verit) powr_gt_zero)
  have "of_int k \<le> log 2 x"
    using assms(1) x_pos by (simp add: le_log_iff)
  then have kj: "k \<le> j" by (simp add: j_def le_floor_iff)
  have "2 powr of_int j \<le> x \<and> x < 2 powr (of_int j + 1)"
    using x_pos floor_log_eq_powr_iff [of x 2 j] by (simp add: j_def)
  then have "2 powr of_int j \<le> to_double x"
    using to_double_binade [of j x] kj assms(2) by simp
  moreover have "(2::real) powr of_int k \<le> 2 powr of_int j"
    using kj by (intro powr_mono) simp_all
  ultimately show ?thesis by linarith
qed

lemma to_double_500: "to_double 500 = 500"
  using to_double_exact [of 8 "125 * 2 ^ 46"] by (simp add: powr_minus_divide)

lemma max_double_less: "max_double < 2 powr 1500"
proof -
  have "max_double < 2 ^ 1024" by (simp add: max_double_def)
  also have "(2::real) ^ 1024 = 2 powr (real 1024)" by (rule powr_realpow [symmetric]) simp
  also have "\<dots> \<le> 2 powr 1500" by (intro powr_mono) simp_all
  finally show ?thesis .
qed

lemma ten_powr_500: "(2::real) powr 1500 \<le> 10 powr 500"
proof -
  have "ln (8::real) = 3 * ln 2"
    using ln_realpow [of 2 3] by simp
  moreover have "ln (8::real) \<le> ln 10" by simp
  ultimately have "1500 * ln 2 \<le> 500 * ln (10::real)" by linarith
  then have "exp (1500 * ln 2) \<le> exp (500 * ln (10::real))" by simp
  then show ?thesis unfolding powr_def by simp
qed

lemma to_double_eq:
  assumes "2 powr of_int k \<le> \<bar>x\<bar>" and "\<bar>x\<bar> < 2 powr (of_int k + 1)" and "- 1022 \<le> k"
    and "\<bar>of_int m - x / 2 powr of_int (k - 52)\<bar> < 1 / 2"
  shows "to_double x = of_int m * 2 powr of_int (k - 52)"
proof -
  have ue: "ulp_exponent x = k - 52"
    using assms(1-3) by (rule ulp_exponent_binade)
  have "0 < \<bar>x\<bar>" using assms(1) by (smt (verit) powr_gt_zero)
  then have nz: "x \<noteq> 0" by simp
  have "py_round (x / 2 powr of_int (k - 52)) = m"
    using assms(4) by (rule py_round_unique)
  then show ?thesis using nz by (simp add: to_double_def ue)
qed

lemma to_double_minus_3: "to_double (- 3) = - 3"
  using to_double_exact [of 1 "- 3 * 2 ^ 51"] by (simp add: powr_minus_divide)

lemma to_double_3: "to_double 3 = 3"
  using to_double_exact [of 1 "3 * 2 ^ 51"] by (simp add: powr_minus_divide)

lemma to_double_1000: "to_double 1000 = 1000"
  using to_double_exact [of 9 "125 * 2 ^ 46"] by (simp add: powr_minus_divide)

lemma to_double_1001: "to_double 1001 = 1001"
  using to_double_exact [of 9 "1001 * 2 ^ 43"] by (simp add: powr_minus_divide)

lemma to_double_thousandth: "to_double (1 / 1000) = 4611686018427388 / 2 ^ 62"
  using to_double_eq [of "- 10" "1 / 1000" 4611686018427388]
  by (simp add: powr_minus_divide)

lemma to_double_1_001: "to_double (1 + 4611686018427388 / 2 ^ 62) = 4508103226997866 / 2 ^ 52"
  using to_double_eq [of 0 "1 + 4611686018427388 / 2 ^ 62" 4508103226997866]
  by (simp add: powr_minus_divide)

lemma to_double_inv_1_001: "to_double (1 / (4508103226997866 / 2 ^ 52)) = 8998201053687306 / 2 ^ 53"
  using to_double_eq [of "- 1" "1 / (4508103226997866 / 2 ^ 52)" 8998201053687306]
  by (simp add: powr_minus_divide)

lemma to_double_inv_1001: "to_double (1 / 1001) = 4607078939487900 / 2 ^ 62"
  using to_double_eq [of "- 10" "1 / 1001" 4607078939487900]
  by (simp add: powr_minus_divide)

lemma ulp_exponent_minus: "ulp_exponent (- x) = ulp_exponent x"
  by (simp add: ulp_exponent_def)

lemma to_double_minus: "to_double (- x) = - to_double x"
  by (simp add: to_double_def ulp_exponent_minus py_round_minus)

lemma to_double_unfold:
  "to_double x = of_int (py_round (x / 2 powr of_int (ulp_exponent x))) * 2 powr of_int (ulp_exponent x)"
  by (simp add: to_double_def py_round_def)

lemma ulp_exponent_le:
  assumes "\<bar>x\<bar> \<le> 2 powr of_int k" and "- 1022 \<le> k" and "x \<noteq> 0"
  shows "ulp_exponent x \<le> k - 52"
proof -
  have "log 2 \<bar>x\<bar> \<le> of_int k"
    using assms(1,3) by (simp add: log_le_iff)
  then have "\<lfloor>log 2 \<bar>x\<bar>\<rfloor> \<le> k" by (simp add: floor_le_iff)
  then show ?thesis using assms(2) by (simp add: ulp_exponent_def)
qed

lemma to_double_half_ulp:
  "\<bar>to_double x - x\<bar> \<le> 2 powr of_int (ulp_exponent x) / 2"
proof -
  define u :: real where "u = 2 powr of_int (ulp_exponent x)"
  have u_pos: "0 < u" by (simp add: u_def)
  have "\<bar>of_int (py_round (x / u)) - x / u\<bar> \<le> 1 / 2" by (rule py_round_nearest)
  then have "\<bar>of_int (py_round (x / u)) - x / u\<bar> * u \<le> 1 / 2 * u"
    using u_pos by (intro mult_right_mono) simp_all
  moreover have "\<bar>of_int (py_round (x / u)) - x / u\<bar> * u = \<bar>of_int (py_round (x / u)) * u - x\<bar>"
  proof -
    have "\<bar>of_int (py_round (x / u)) - x / u\<bar> * u = \<bar>(of_int (py_round (x / u)) - x / u) * u\<bar>"
      using u_pos by (simp only: abs_mult abs_of_pos)
    also have "(of_int (py_round (x / u)) - x / u) * u = of_int (py_round (x / u)) * u - x"
      using u_pos by (simp add: left_diff_distrib)
    finally show ?thesis .
  qed
  ultimately have "\<bar>of_int (py_round (x / u)) * u - x\<bar> \<le> u / 2" by simp
  then show ?thesis
    unfolding u_def to_double_unfold [symmetric] .
qed

lemma to_double_error:
  assumes "\<bar>x\<bar> \<le> 2 powr of_int k" and "- 1022 \<le> k"
  shows "\<bar>to_double x - x\<bar> \<le> 2 powr of_int (k - 53)"
proof (cases "x = 0")
  case True
  then show ?thesis by (simp add: to_double_def)
next
  case False
  with assms have "ulp_exponent x \<le> k - 52" by (rule ulp_exponent_le)
  then have "2 powr of_int (ulp_exponent x) \<le> (2::real) powr of_int (k - 52)"
    by (intro powr_mono) simp_all
  moreover have "(2::real) powr of_int (k - 52) / 2 = 2 powr of_int (k - 53)"
    by (simp add: powr_diff)
  ultimately show ?thesis
    using to_double_half_ulp [of x] by linarith
qed

lemma to_double_rel_error:
  assumes "2 powr (- 1022) \<le> \<bar>x\<bar>"
  shows "\<bar>to_double x - x\<bar> \<le> 2 powr (- 53) * \<bar>x\<bar>"
proof -
  define j where "j = \<lfloor>log 2 \<bar>x\<bar>\<rfloor>"
  have x_pos: "0 < \<bar>x\<bar>" using assms by (smt (verit) powr_gt_zero)
  have "- 1022 \<le> log 2 \<bar>x\<bar>"
    using assms x_pos by (simp add: le_log_iff)
  then have j: "- 1022 \<le> j" by (simp add: j_def le_floor_iff)
  have bin: "2 powr of_int j \<le> \<bar>x\<bar> \<and> \<bar>x\<bar> < 2 powr (of_int j + 1)"
    using x_pos floor_log_eq_powr_iff [of "\<bar>x\<bar>" 2 j] by (simp add: j_def)
  then have ue: "ulp_exponent x = j - 52"
    using ulp_exponent_binade [of j x] j by simp
  have "(2::real) powr of_int (j - 52) / 2 = 2 powr (- 53) * 2 powr of_int j"
    by (simp add: powr_diff powr_minus_divide)
  also have "\<dots> \<le> 2 powr (- 53) * \<bar>x\<bar>"
    using bin by (intro mult_left_mono) simp_all
  finally show ?thesis
    using to_double_half_ulp [of x] unfolding ue by linarith
qed

lemma to_double_error_mixed:
  "\<bar>to_double x - x\<bar> \<le> 2 powr (- 53) * \<bar>x\<bar> + 2 powr (- 1075)"
proof (cases "2 powr (- 1022) \<le> \<bar>x\<bar>")
  case True
  then have "\<bar>to_double x - x\<bar> \<le> 2 powr (- 53) * \<bar>x\<bar>" by (rule to_double_rel_error)
  moreover have "(0::real) \<le> 2 powr (- 1075)" by simp
  ultimately show ?thesis by linarith
next
  case False
  then have "\<bar>x\<bar> \<le> 2 powr of_int (- 1022)" by simp
  then have "\<bar>to_double x - x\<bar> \<le> 2 powr of_int (- 1022 - 53)"
    by (rule to_double_error) simp
  then have "\<bar>to_double x - x\<bar> \<le> 2 powr (- 1075)" by simp
  moreover have "0 \<le> 2 powr (- 53) * \<bar>x\<bar>" by simp
  ultimately show ?thesis by linarith
qed

lemma to_double_abs_le:
  assumes "\<bar>x\<bar> \<le> 2 powr of_int k" and "- 1022 \<le> k"
  shows "\<bar>to_double x\<bar> \<le> 2 powr of_int k"
proof (cases "x = 0")
  case True
  then show ?thesis by (simp add: to_double_def)
next
  case False
  define e where "e = ulp_exponent x"
  define u :: real where "u = 2 powr of_int e"
  define n where "n = nat (k - e)"
  have u_pos: "0 < u" by (simp add: u_def)
  have e: "e \<le> k - 52" unfolding e_def using assms False by (rule ulp_exponent_le)
  then have "of_int k = of_int e + real n" by (simp add: n_def)
  then have "(2::real) powr of_int k = 2 powr of_int e * 2 powr real n"
    by (simp only: powr_add)
  then have ku: "(2::real) powr of_int k = of_int (2 ^ n) * u"
    by (simp add: u_def powr_realpow)
  have "x \<le> of_int (2 ^ n) * u" "- (of_int (2 ^ n) * u) \<le> x"
    using assms(1) unfolding ku by linarith+
  then have "x / u \<le> of_int (2 ^ n)" "of_int (- (2 ^ n)) \<le> x / u"
    using u_pos by (simp_all add: pos_divide_le_eq pos_le_divide_eq)
  then have "py_round (x / u) \<le> 2 ^ n" "- (2 ^ n) \<le> py_round (x / u)"
    by (auto intro: py_round_le py_round_ge)
  then have "\<bar>py_round (x / u)\<bar> \<le> 2 ^ n" by simp
  then have "\<bar>real_of_int (py_round (x / u))\<bar> \<le> of_int (2 ^ n)"
    by (metis of_int_abs of_int_le_iff)
  then have "\<bar>real_of_int (py_round (x / u))\<bar> * u \<le> of_int (2 ^ n) * u"
    using u_pos by (intro mult_right_mono) simp_all
  moreover have "\<bar>to_double x\<bar> = \<bar>real_of_int (py_round (x / u))\<bar> * u"
    using u_pos by (simp add: to_double_unfold [of x] abs_mult u_def e_def)
  ultimately show ?thesis unfolding ku by simp
qed

lemma to_double_least:
  assumes "2 powr (- 1074) \<le> x"
  shows "2 powr (- 1074) \<le> to_double x"
proof (cases "2 powr of_int (- 1022) \<le> x")
  case True
  then have "2 powr of_int (- 1022) \<le> to_double x"
    by (rule to_double_ge_pow2) simp
  moreover have "(2::real) powr (- 1074) \<le> 2 powr of_int (- 1022)"
    by (intro powr_mono) simp_all
  ultimately show ?thesis by linarith
next
  case False
  have x_pos: "0 < x" using assms by (smt (verit) powr_gt_zero)
  have "\<bar>x\<bar> \<le> 2 powr of_int (- 1022)" using False x_pos by simp
  then have "ulp_exponent x \<le> - 1022 - 52"
    using x_pos by (intro ulp_exponent_le) simp_all
  moreover have "- 1074 \<le> ulp_exponent x" by (simp add: ulp_exponent_def)
  ultimately have ue: "ulp_exponent x = - 1074" by simp
  define u :: real where "u = 2 powr (- 1074)"
  have u_pos: "0 < u" by (simp add: u_def)
  have "of_int 1 \<le> x / u" using assms u_pos by (simp add: u_def)
  then have "1 \<le> py_round (x / u)" by (rule py_round_ge)
  then have "1 \<le> real_of_int (py_round (x / u))" by simp
  then have "1 * u \<le> real_of_int (py_round (x / u)) * u"
    using u_pos by (intro mult_right_mono) simp_all
  moreover have "to_double x = real_of_int (py_round (x / u)) * u"
    by (simp add: to_double_unfold [of x] ue u_def)
  ultimately show ?thesis by (simp add: u_def)
qed

lemma to_double_of_int:
  assumes "\<bar>n\<bar> \<le> 2 ^ 53"
  shows "to_double (of_int n) = of_int n"
proof -
  consider "n = 0" | "\<bar>n\<bar> = 2 ^ 53" | "1 \<le> \<bar>n\<bar>" "\<bar>n\<bar> < 2 ^ 53" using assms by linarith
  then show ?thesis
  proof cases
    case 1
    then show ?thesis by (simp add: to_double_def)
  next
    case 2
    then consider "n = 2 ^ 53" | "n = - (2 ^ 53)" by linarith
    then show ?thesis
    proof cases
      case 1
      then show ?thesis using to_double_exact [of 53 "2 ^ 52"] by simp
    next
      case 2
      then show ?thesis using to_double_exact [of 53 "- (2 ^ 52)"] by simp
    qed
  next
    case 3
    define j where "j = \<lfloor>log 2 \<bar>real_of_int n\<bar>\<rfloor>"
    have a_pos: "0 < \<bar>real_of_int n\<bar>" using 3(1) by simp
    have "1 \<le> \<bar>real_of_int n\<bar>" using 3(1) by (metis of_int_1_le_iff of_int_abs)
    then have "0 \<le> log 2 \<bar>real_of_int n\<bar>" by simp
    then have j0: "0 \<le> j" by (simp add: j_def)
    have "\<bar>real_of_int n\<bar> < 2 ^ 53"
      using 3(2) by (metis of_int_abs of_int_less_iff of_int_numeral of_int_power)
    then have "\<bar>real_of_int n\<bar> < 2 powr 53" by simp
    then have "log 2 \<bar>real_of_int n\<bar> < 53"
      using a_pos by (simp add: log_less_iff)
    then have j52: "j \<le> 52" by (simp add: j_def floor_le_iff)
    have bin: "2 powr of_int j \<le> \<bar>real_of_int n\<bar> \<and> \<bar>real_of_int n\<bar> < 2 powr (of_int j + 1)"
      using a_pos floor_log_eq_powr_iff [of "\<bar>real_of_int n\<bar>" 2 j] by (simp add: j_def)
    then have ue: "ulp_exponent (of_int n) = j - 52"
      using ulp_exponent_binade [of j "of_int n"] j0 by simp
    define i where "i = nat (52 - j)"
    define u :: real where "u = 2 powr of_int (j - 52)"
    have u_pos: "0 < u" by (simp add: u_def)
    have "real_of_int (j - 52) = - real i" using j52 by (simp add: i_def)
    then have "u = 1 / 2 powr real i"
      unfolding u_def by (simp only: powr_minus_divide)
    then have ui: "u = 1 / 2 ^ i" by (simp add: powr_realpow)
    then have q: "of_int n / u = of_int (n * 2 ^ i)" by simp
    have "to_double (of_int n) = of_int (py_round (of_int n / u)) * u"
      by (simp add: to_double_unfold [of "of_int n"] ue u_def)
    also have "\<dots> = of_int (n * 2 ^ i) * u"
      unfolding q py_round_of_int ..
    also have "\<dots> = of_int n" by (simp add: ui)
    finally show ?thesis .
  qed
qed

lemma max_double_ge: "2 powr of_int 1023 \<le> max_double"
proof -
  have "(2::real) powr of_int 1023 = 2 ^ 1023"
    using powr_realpow [of 2 1023] by simp
  also have "\<dots> \<le> max_double" by (simp add: max_double_def)
  finally show ?thesis .
qed

lemma to_double_le_max:
  assumes "\<bar>x\<bar> \<le> max_double"
  shows "\<bar>to_double x\<bar> \<le> max_double"
proof (cases "\<bar>x\<bar> \<le> 2 powr of_int 1023")
  case True
  then have "\<bar>to_double x\<bar> \<le> 2 powr of_int 1023" by (rule to_double_abs_le) simp
  then show ?thesis using max_double_ge by linarith
next
  case False
  have m: "max_double < 2 powr (of_int 1023 + 1)"
  proof -
    have "max_double < 2 ^ 1024" by (simp add: max_double_def)
    also have "(2::real) ^ 1024 = 2 powr (of_int 1023 + 1)"
      using powr_realpow [of 2 1024] by simp
    finally show ?thesis .
  qed
  have "2 powr of_int 1023 \<le> \<bar>x\<bar>" using False by simp
  moreover have "\<bar>x\<bar> < 2 powr (of_int 1023 + 1)" using assms m by linarith
  ultimately have ue: "ulp_exponent x = 1023 - 52"
    by (rule ulp_exponent_binade) simp
  define u :: real where "u = 2 powr of_int (ulp_exponent x)"
  have u_pos: "0 < u" by (simp add: u_def)
  have u971: "u = 2 ^ 971"
    unfolding u_def ue using powr_realpow [of 2 971] by simp
  have mu: "max_double = of_int (2 ^ 53 - 1) * u" by (simp add: max_double_def u971)
  have "x \<le> of_int (2 ^ 53 - 1) * u" "- (of_int (2 ^ 53 - 1) * u) \<le> x"
    using assms unfolding mu by linarith+
  then have "x / u \<le> of_int (2 ^ 53 - 1)" "of_int (- (2 ^ 53 - 1)) \<le> x / u"
    using u_pos by (simp_all add: pos_divide_le_eq pos_le_divide_eq)
  then have "py_round (x / u) \<le> 2 ^ 53 - 1" "- (2 ^ 53 - 1) \<le> py_round (x / u)"
    by (auto intro: py_round_le py_round_ge)
  then have "\<bar>py_round (x / u)\<bar> \<le> 2 ^ 53 - 1" by simp
  then have "\<bar>real_of_int (py_round (x / u))\<bar> \<le> of_int (2 ^ 53 - 1)"
    by (metis of_int_abs of_int_le_iff)
  then have "\<bar>real_of_int (py_round (x / u))\<bar> * u \<le> of_int (2 ^ 53 - 1) * u"
    using u_pos by (intro mult_right_mono) simp_all
  moreover have "\<bar>to_double x\<bar> = \<bar>real_of_int (py_round (x / u))\<bar> * u"
    unfolding to_double_unfold [of x] u_def [symmetric]
    using u_pos by (simp only: abs_mult abs_of_pos)
  ultimately show ?thesis unfolding mu by simp
qed

section \<open>The expected score in double precision\<close>

lemma to_double_le_pow2:
  assumes "x \<le> 2 powr of_int k" and "- 1022 \<le> k"
  shows "to_double x \<le> 2 powr of_int k"
proof (cases "0 \<le> x")
  case True
  then have "\<bar>x\<bar> \<le> 2 powr of_int k" using assms(1) by simp
  then have "\<bar>to_double x\<bar> \<le> 2 powr of_int k" using assms(2) by (rule to_double_abs_le)
  then show ?thesis by linarith
next
  case False
  then have "0 \<le> to_double (- x)" by (intro to_double_nonneg) simp
  then have "to_double x \<le> 0" by (simp add: to_double_minus)
  moreover have "(0::real) \<le> 2 powr of_int k" by simp
  ultimately show ?thesis by linarith
qed

text \<open>Rounding does not pass a double: what is at most the double \<open>m * 2 powr (k - 52)\<close> stays so.\<close>

lemma to_double_le_double:
  assumes x: "x \<le> of_int m * 2 powr of_int (k - 52)"
    and k: "- 1022 \<le> k" and m: "2 ^ 52 \<le> m" "m < 2 ^ 53"
  shows "to_double x \<le> of_int m * 2 powr of_int (k - 52)"
proof -
  define u :: real where "u = 2 powr of_int (k - 52)"
  have u_pos: "0 < u" by (simp add: u_def)
  have uk: "2 ^ 52 * u = 2 powr of_int k"
    unfolding u_def by (simp add: powr_diff)
  have uk1: "2 ^ 53 * u = 2 powr (of_int k + 1)"
    unfolding u_def by (simp add: powr_diff powr_add)
  have m52: "(2 ^ 52 :: real) \<le> of_int m"
    using m(1) by (metis of_int_le_iff of_int_numeral of_int_power)
  have m53: "of_int m < (2 ^ 53 :: real)"
    using m(2) by (metis of_int_less_iff of_int_numeral of_int_power)
  have c_lo: "2 powr of_int k \<le> of_int m * u"
    unfolding uk [symmetric] using m52 u_pos by simp
  have c_hi: "of_int m * u < 2 powr (of_int k + 1)"
    unfolding uk1 [symmetric] using m53 u_pos by simp
  show ?thesis
  proof (cases "x \<le> 2 powr of_int k")
    case True
    then have "to_double x \<le> 2 powr of_int k" using k by (rule to_double_le_pow2)
    then show ?thesis unfolding u_def [symmetric] using c_lo by linarith
  next
    case False
    then have lo: "2 powr of_int k \<le> \<bar>x\<bar>" by simp
    have x_pos: "0 < x" using False by (smt (verit) powr_gt_zero)
    have "\<bar>x\<bar> < 2 powr (of_int k + 1)"
      using x x_pos c_hi unfolding u_def [symmetric] by simp
    with lo have ue: "ulp_exponent x = k - 52" using k by (rule ulp_exponent_binade)
    have "x / u \<le> of_int m"
      using x u_pos unfolding u_def [symmetric] by (simp add: pos_divide_le_eq)
    then have "py_round (x / u) \<le> m" by (rule py_round_le)
    then have "real_of_int (py_round (x / u)) * u \<le> of_int m * u"
      using u_pos by simp
    moreover have "to_double x = real_of_int (py_round (x / u)) * u"
      unfolding to_double_unfold [of x] ue u_def ..
    ultimately show ?thesis unfolding u_def by simp
  qed
qed

lemma to_double_le_308: "x \<le> 308 \<Longrightarrow> to_double x \<le> 308"
  using to_double_le_double [of x "77 * 2 ^ 46" 8] by (simp add: powr_minus_divide)

lemma pow_rounded_accurate: "pow_accurate pow_rounded"
proof -
  have "pow_rounded 10 0 = 1" by (simp add: pow_rounded_def to_double_one)
  moreover have "0 \<le> pow_rounded 10 x
      \<and> \<bar>pow_rounded 10 x - 10 powr x\<bar> \<le> 2 powr (- 50) * 10 powr x + 2 powr (- 1074)" for x
  proof
    show "0 \<le> pow_rounded 10 x"
      unfolding pow_rounded_def by (rule to_double_nonneg) simp
    define q :: real where "q = 10 powr x"
    have q: "0 \<le> q" by (simp add: q_def)
    have "\<bar>to_double q - q\<bar> \<le> 2 powr (- 53) * \<bar>q\<bar> + 2 powr (- 1075)"
      by (rule to_double_error_mixed)
    moreover have "2 powr (- 53) * \<bar>q\<bar> \<le> 2 powr (- 50) * q"
      using q by (intro mult_mono) (simp_all add: powr_minus_divide)
    moreover have "(2::real) powr (- 1075) \<le> 2 powr (- 1074)"
      by (intro powr_mono) simp_all
    ultimately show "\<bar>pow_rounded 10 x - 10 powr x\<bar> \<le> 2 powr (- 50) * 10 powr x + 2 powr (- 1074)"
      unfolding pow_rounded_def q_def by linarith
  qed
  ultimately show ?thesis unfolding pow_accurate_def by blast
qed

lemma pow_accurateD:
  assumes "pow_accurate pw"
  shows "pw 10 0 = 1" and "0 \<le> pw 10 x"
    and "\<bar>pw 10 x - 10 powr x\<bar> \<le> 2 powr (- 50) * 10 powr x + 2 powr (- 1074)"
  using assms unfolding pow_accurate_def by blast+

text \<open>What a returned expected score is made of.\<close>

lemma expected_score_double_InrD:
  assumes "get_expected_score_double pw self opp = Inr E"
  shows "E = to_double (1 / to_double (1 + pw 10 (to_double (real_of_int (opp - rating self) / 400))))"
    and "\<bar>pw 10 (to_double (real_of_int (opp - rating self) / 400))\<bar> \<le> max_double"
  using assms
  by (auto simp: get_expected_score_double_def int_truediv_def float_pow_def float_add_def
      float_truediv_def Let_def split: sum.splits if_splits)

lemma recip_diff:
  fixes a b :: real
  assumes "0 < a" and "0 < b"
  shows "\<bar>1 / a - 1 / b\<bar> = \<bar>a - b\<bar> / (a * b)"
proof -
  have "1 / a - 1 / b = (b - a) / (a * b)"
    using assms by (simp add: field_simps)
  then show ?thesis
    using assms by (simp add: abs_minus_commute)
qed

lemma expected_score_double_range:
  assumes acc: "pow_accurate pw" and res: "get_expected_score_double pw self opp = Inr E"
  shows "0 < E \<and> E \<le> 1"
proof -
  define p where "p = pw 10 (to_double (real_of_int (opp - rating self) / 400))"
  define z where "z = to_double (1 + p)"
  have E: "E = to_double (1 / z)" and pmax: "\<bar>p\<bar> \<le> max_double"
    using expected_score_double_InrD [OF res] by (simp_all add: z_def p_def)
  have p0: "0 \<le> p" unfolding p_def using acc by (rule pow_accurateD)
  have z1: "1 \<le> z" unfolding z_def by (rule to_double_ge_one) (use p0 in simp)
  have "max_double < 2 ^ 1024" by (simp add: max_double_def)
  then have "\<bar>1 + p\<bar> \<le> 2 ^ 1025" using pmax p0 by simp
  also have "(2::real) ^ 1025 = 2 powr of_int 1025"
    using powr_realpow [of 2 1025] by simp
  finally have "\<bar>z\<bar> \<le> 2 powr of_int 1025"
    unfolding z_def by (rule to_double_abs_le) simp
  then have z_hi: "z \<le> 2 powr 1025" by simp
  have "1 / 2 powr 1025 \<le> 1 / z"
    using z1 z_hi by (intro divide_left_mono) simp_all
  moreover have "(2::real) powr (- 1074) \<le> 1 / 2 powr 1025"
    by (simp add: powr_minus_divide)
  ultimately have "2 powr (- 1074) \<le> 1 / z" by linarith
  then have "2 powr (- 1074) \<le> E" unfolding E by (rule to_double_least)
  moreover have "(0::real) < 2 powr (- 1074)" by simp
  ultimately have "0 < E" by linarith
  moreover have "E \<le> 1"
    unfolding E using z1 by (intro to_double_le_one) simp_all
  ultimately show ?thesis by simp
qed

text \<open>
  A returned expected score is within \<open>2 powr - 49\<close> of the exact \<open>1 / (1 + 10 powr x)\<close>,
  for the exponent \<open>x\<close> that the division by 400 gave.
\<close>

lemma expected_score_double_close:
  assumes acc: "pow_accurate pw" and res: "get_expected_score_double pw self opp = Inr E"
  shows "\<bar>E - 1 / (1 + 10 powr to_double (real_of_int (opp - rating self) / 400))\<bar> \<le> 2 powr (- 49)"
proof -
  define x where "x = to_double (real_of_int (opp - rating self) / 400)"
  define q :: real where "q = 10 powr x"
  define p where "p = pw 10 x"
  define z where "z = to_double (1 + p)"
  have E: "E = to_double (1 / z)"
    using expected_score_double_InrD(1) [OF res] by (simp add: z_def p_def x_def)
  have q0: "0 < q" by (simp add: q_def)
  have p0: "0 \<le> p" unfolding p_def using acc by (rule pow_accurateD)
  have pq: "\<bar>p - q\<bar> \<le> 2 powr (- 50) * q + 2 powr (- 1074)"
    unfolding p_def q_def using acc by (rule pow_accurateD)
  have z1: "1 \<le> z" unfolding z_def by (rule to_double_ge_one) (use p0 in simp)
  have "2 powr (- 1022) \<le> \<bar>1 + p\<bar>"
  proof -
    have "(2::real) powr (- 1022) \<le> 2 powr 0" by (intro powr_mono) simp_all
    then show ?thesis using p0 by simp
  qed
  then have "\<bar>to_double (1 + p) - (1 + p)\<bar> \<le> 2 powr (- 53) * \<bar>1 + p\<bar>"
    by (rule to_double_rel_error)
  then have zerr: "\<bar>z - (1 + p)\<bar> \<le> 2 powr (- 53) * (1 + p)"
    using p0 by (simp add: z_def)
  have partA: "\<bar>E - 1 / z\<bar> \<le> 2 powr (- 53)"
  proof -
    have "\<bar>1 / z\<bar> \<le> 2 powr of_int 0" using z1 by simp
    then have "\<bar>to_double (1 / z) - 1 / z\<bar> \<le> 2 powr of_int (0 - 53)"
      by (rule to_double_error) simp
    then show ?thesis by (simp add: E)
  qed
  have partB: "\<bar>1 / z - 1 / (1 + p)\<bar> \<le> 2 powr (- 53)"
  proof -
    have "\<bar>1 / z - 1 / (1 + p)\<bar> = \<bar>z - (1 + p)\<bar> / (z * (1 + p))"
      using z1 p0 by (intro recip_diff) simp_all
    also have "\<dots> \<le> (2 powr (- 53) * (1 + p)) / (z * (1 + p))"
      using zerr z1 p0 by (intro divide_right_mono) simp_all
    also have "\<dots> = 2 powr (- 53) / z" using p0 by simp
    also have "\<dots> \<le> 2 powr (- 53) / 1"
      using z1 by (intro divide_left_mono) simp_all
    finally show ?thesis by simp
  qed
  have partC: "\<bar>1 / (1 + p) - 1 / (1 + q)\<bar> \<le> 2 powr (- 50) + 2 powr (- 1074)"
  proof -
    have pq0: "0 \<le> p * q" using p0 q0 by simp
    have expand: "(1 + p) * (1 + q) = 1 + p + q + p * q" by (simp add: algebra_simps)
    have den: "1 \<le> (1 + p) * (1 + q)"
      unfolding expand using p0 q0 pq0 by linarith
    have qden: "q \<le> (1 + p) * (1 + q)"
      unfolding expand using p0 q0 pq0 by linarith
    have "\<bar>1 / (1 + p) - 1 / (1 + q)\<bar> = \<bar>(1 + p) - (1 + q)\<bar> / ((1 + p) * (1 + q))"
      using p0 q0 by (intro recip_diff) simp_all
    also have "\<dots> = \<bar>p - q\<bar> / ((1 + p) * (1 + q))" by simp
    also have "\<dots> \<le> (2 powr (- 50) * q + 2 powr (- 1074)) / ((1 + p) * (1 + q))"
      using pq den by (intro divide_right_mono) simp_all
    also have "\<dots> = 2 powr (- 50) * (q / ((1 + p) * (1 + q)))
                  + 2 powr (- 1074) * (1 / ((1 + p) * (1 + q)))"
      by (simp add: add_divide_distrib)
    also have "\<dots> \<le> 2 powr (- 50) * 1 + 2 powr (- 1074) * 1"
    proof (intro add_mono mult_left_mono)
      show "q / ((1 + p) * (1 + q)) \<le> 1" using qden den by simp
      show "1 / ((1 + p) * (1 + q)) \<le> 1" using den by simp
    qed simp_all
    finally show ?thesis by simp
  qed
  have "\<bar>E - 1 / (1 + q)\<bar> \<le> \<bar>E - 1 / z\<bar> + \<bar>1 / z - 1 / (1 + p)\<bar> + \<bar>1 / (1 + p) - 1 / (1 + q)\<bar>"
    by linarith
  also have "\<dots> \<le> 2 powr (- 53) + 2 powr (- 53) + (2 powr (- 50) + 2 powr (- 1074))"
    using partA partB partC by linarith
  also have "\<dots> \<le> 2 powr (- 49)"
    by (simp add: powr_minus_divide)
  finally show ?thesis unfolding q_def x_def .
qed

lemma expected_score_double_returns:
  assumes acc: "pow_accurate pw"
    and lo: "- 4294967296 \<le> opp - rating self" and gap: "opp - rating self \<le> 123200"
  shows "\<exists>E. get_expected_score_double pw self opp = Inr E"
proof -
  define d where "d = opp - rating self"
  define x where "x = to_double (real_of_int d / 400)"
  define p where "p = pw 10 x"
  have d_abs: "\<bar>real_of_int d\<bar> \<le> 2 ^ 32"
  proof -
    have "\<bar>d\<bar> \<le> 4294967296" using lo gap unfolding d_def by linarith
    then have "\<bar>d\<bar> \<le> 2 ^ 32" by simp
    then show ?thesis by (metis of_int_abs of_int_le_iff of_int_numeral of_int_power)
  qed
  then have "\<bar>real_of_int d / 400\<bar> \<le> 2 powr of_int 24" by simp
  then have "\<bar>x\<bar> \<le> 2 powr of_int 24"
    unfolding x_def by (rule to_double_abs_le) simp
  moreover have "(2::real) powr of_int 24 \<le> max_double" by (simp add: max_double_def)
  ultimately have x_fin: "\<not> max_double < \<bar>x\<bar>" by linarith
  have "real_of_int d \<le> 123200" using gap by (simp add: d_def)
  then have "real_of_int d / 400 \<le> 308" by simp
  then have x308: "x \<le> 308" unfolding x_def by (rule to_double_le_308)
  have div: "int_truediv (opp - rating self) 400 = Inr x"
    using x_fin by (simp add: int_truediv_def x_def d_def Let_def)
  have p0: "0 \<le> p" unfolding p_def using acc by (rule pow_accurateD)
  have "(10::real) powr x \<le> 10 powr 308" using x308 by (intro powr_mono) simp_all
  then have q308: "(10::real) powr x \<le> 10 ^ 308" by simp
  have "\<bar>p - 10 powr x\<bar> \<le> 2 powr (- 50) * 10 powr x + 2 powr (- 1074)"
    unfolding p_def using acc by (rule pow_accurateD)
  moreover have "2 powr (- 50) * 10 powr x \<le> 1 / 2 * 10 powr x"
    by (intro mult_right_mono) (simp_all add: powr_minus_divide)
  moreover have "(2::real) powr (- 1074) \<le> 1"
    by (simp add: powr_minus_divide)
  ultimately have "p \<le> 3 / 2 * 10 ^ 308 + 1" using q308 by linarith
  moreover have "3 / 2 * 10 ^ 308 + 1 \<le> max_double" by (simp add: max_double_def)
  ultimately have p_fin: "\<not> max_double < \<bar>p\<bar>" using p0 by linarith
  have pw: "float_pow pw 10 x = Inr p"
    using p_fin by (simp add: float_pow_def p_def Let_def)
  have "1 \<le> float_add 1 p"
    unfolding float_add_def by (rule to_double_ge_one) (use p0 in simp)
  then have "float_add 1 p \<noteq> 0" by simp
  then show ?thesis
    by (simp add: get_expected_score_double_def div pw float_truediv_def)
qed

lemma expected_score_double_equal:
  assumes "pow_accurate pw"
  shows "get_expected_score_double pw e (rating e) = Inr (1 / 2)"
  using pow_accurateD(1) [OF assms]
  by (simp add: get_expected_score_double_def int_truediv_def float_pow_def float_add_def
      float_truediv_def to_double_zero to_double_one to_double_two to_double_half max_double_def)

text \<open>
  The two expected scores of a game, as doubles, add up to 1 within \<open>2 powr - 48\<close>:
  both are computed from the same exponent, up to its sign.
\<close>

lemma expected_scores_double_sum:
  assumes acc: "pow_accurate pw"
    and r1: "get_expected_score_double pw e1 (rating e2) = Inr E1"
    and r2: "get_expected_score_double pw e2 (rating e1) = Inr E2"
  shows "\<bar>E1 + E2 - 1\<bar> \<le> 2 powr (- 48)"
proof -
  define x where "x = to_double (real_of_int (rating e2 - rating e1) / 400)"
  define q :: real where "q = 10 powr x"
  have q0: "0 < q" by (simp add: q_def)
  have "real_of_int (rating e1 - rating e2) = - real_of_int (rating e2 - rating e1)"
    by simp
  then have "real_of_int (rating e1 - rating e2) / 400 = - (real_of_int (rating e2 - rating e1) / 400)"
    by (simp only: minus_divide_left)
  then have "to_double (real_of_int (rating e1 - rating e2) / 400) = - x"
    unfolding x_def by (simp only: to_double_minus)
  then have q2: "10 powr to_double (real_of_int (rating e1 - rating e2) / 400) = 1 / q"
    unfolding q_def by (simp only: powr_minus_divide)
  have c1: "\<bar>E1 - 1 / (1 + q)\<bar> \<le> 2 powr (- 49)"
    using expected_score_double_close [OF acc r1] by (simp only: q_def x_def)
  have c2: "\<bar>E2 - 1 / (1 + 1 / q)\<bar> \<le> 2 powr (- 49)"
    using expected_score_double_close [OF acc r2] by (simp only: q2)
  have "1 / (1 + q) + 1 / (1 + 1 / q) = 1"
    using q0 by (simp add: field_simps)
  then have "\<bar>E1 + E2 - 1\<bar> \<le> \<bar>E1 - 1 / (1 + q)\<bar> + \<bar>E2 - 1 / (1 + 1 / q)\<bar>"
    by linarith
  also have "\<dots> \<le> 2 powr (- 49) + 2 powr (- 49)" using c1 c2 by linarith
  also have "\<dots> = 2 powr (- 48)" by (simp add: powr_minus_divide)
  finally show ?thesis .
qed

lemma expected_score_double_overflow:
  "get_expected_score_double pow_rounded (Elo_init (Some 0) None 0 None) 200000 = Inl OverflowError"
proof -
  have x: "int_truediv 200000 400 = Inr 500"
    by (simp add: int_truediv_def to_double_500 max_double_def)
  have "2 powr of_int 1500 \<le> (10::real) powr 500"
    using ten_powr_500 by (simp only: of_int_numeral)
  then have "2 powr of_int 1500 \<le> to_double (10 powr 500)"
    by (rule to_double_ge_pow2) simp
  then have "2 powr 1500 \<le> to_double (10 powr 500)"
    by (simp only: of_int_numeral)
  then have "max_double < \<bar>to_double (10 powr 500)\<bar>"
    using max_double_less by linarith
  then have pw: "float_pow pow_rounded 10 500 = Inl OverflowError"
    by (simp only: float_pow_def pow_rounded_def Let_def if_True)
  have "get_expected_score_double pow_rounded (Elo_init (Some 0) None 0 None) 200000
          = (case int_truediv 200000 400 of
               Inl e \<Rightarrow> Inl e
             | Inr x \<Rightarrow> (case float_pow pow_rounded 10 x of Inl e \<Rightarrow> Inl e
                         | Inr p \<Rightarrow> float_truediv 1 (float_add 1 p)))"
    by (simp add: get_expected_score_double_def Elo_init_def)
  also have "\<dots> = Inl OverflowError"
    unfolding x sum.case pw ..
  finally show ?thesis .
qed

lemma expected_score_double_8000:
  "get_expected_score_double pow_rounded (Elo_init (Some 8000) None 0 None) 0 = Inr 1"
proof -
  define p where "p = to_double (10 powr (- 20))"
  have "2 powr of_int (- 67) \<le> (10::real) powr (- 20)" "(10::real) powr (- 20) < 2 powr (of_int (- 67) + 1)"
    using ten_powr_minus_20 by simp_all
  then have "2 powr of_int (- 67) \<le> p \<and> p \<le> 2 powr (of_int (- 67) + 1)"
    unfolding p_def by (rule to_double_binade) simp
  then have p1: "p \<le> 2 powr (- 66)" by simp
  have p0: "0 \<le> p" unfolding p_def by (rule to_double_nonneg) simp
  have p54: "p \<le> 2 powr (- 54)"
    using p1 by (rule order_trans) simp
  have pmax: "\<not> max_double < \<bar>p\<bar>"
  proof -
    have "2 powr (- 54) \<le> (1::real)" by (simp add: powr_minus_divide)
    moreover have "(1::real) \<le> max_double" by (simp add: max_double_def)
    ultimately show ?thesis using p0 p54 by linarith
  qed
  have x: "int_truediv (0 - 8000) 400 = Inr (- 20)"
    by (simp add: int_truediv_def to_double_minus_20 max_double_def)
  have pw: "float_pow pow_rounded 10 (- 20) = Inr p"
    using pmax by (simp add: float_pow_def pow_rounded_def p_def [symmetric] Let_def)
  have add: "float_add 1 p = 1"
    unfolding float_add_def using p0 p54 by (rule to_double_near_one)
  have "get_expected_score_double pow_rounded (Elo_init (Some 8000) None 0 None) 0
          = (case int_truediv (0 - 8000) 400 of
               Inl e \<Rightarrow> Inl e
             | Inr x \<Rightarrow> (case float_pow pow_rounded 10 x of Inl e \<Rightarrow> Inl e
                         | Inr p \<Rightarrow> float_truediv 1 (float_add 1 p)))"
    by (simp add: get_expected_score_double_def Elo_init_def)
  also have "\<dots> = float_truediv 1 1"
    unfolding x sum.case pw add ..
  also have "\<dots> = Inr 1"
    by (simp add: float_truediv_def to_double_one)
  finally show ?thesis .
qed

lemma expected_score_double_2400_1200:
  "get_expected_score_double pow_rounded (Elo_init (Some 2400) None 0 None) 1200
     = Inr (8998201053687306 / 2 ^ 53)"
proof -
  have x: "int_truediv (1200 - 2400) 400 = Inr (- 3)"
    by (simp add: int_truediv_def to_double_minus_3 max_double_def)
  have p3: "(10::real) powr (- 3) = 1 / 1000" by (simp add: powr_minus_divide)
  have pw: "float_pow pow_rounded 10 (- 3) = Inr (4611686018427388 / 2 ^ 62)"
    unfolding float_pow_def pow_rounded_def Let_def p3 to_double_thousandth
    by (simp add: max_double_def)
  have add: "float_add 1 (4611686018427388 / 2 ^ 62) = 4508103226997866 / 2 ^ 52"
    unfolding float_add_def by (rule to_double_1_001)
  have dv: "float_truediv 1 (4508103226997866 / 2 ^ 52) = Inr (8998201053687306 / 2 ^ 53)"
    unfolding float_truediv_def to_double_inv_1_001 by simp
  have "get_expected_score_double pow_rounded (Elo_init (Some 2400) None 0 None) 1200
          = (case int_truediv (1200 - 2400) 400 of
               Inl e \<Rightarrow> Inl e
             | Inr x \<Rightarrow> (case float_pow pow_rounded 10 x of Inl e \<Rightarrow> Inl e
                         | Inr p \<Rightarrow> float_truediv 1 (float_add 1 p)))"
    by (simp add: get_expected_score_double_def Elo_init_def)
  also have "\<dots> = Inr (8998201053687306 / 2 ^ 53)"
    unfolding x sum.case pw add dv ..
  finally show ?thesis .
qed

lemma expected_score_double_1200_2400:
  "get_expected_score_double pow_rounded (Elo_init (Some 1200) None 0 None) 2400
     = Inr (4607078939487900 / 2 ^ 62)"
proof -
  have x: "int_truediv (2400 - 1200) 400 = Inr 3"
    by (simp add: int_truediv_def to_double_3 max_double_def)
  have p3: "(10::real) powr 3 = 1000" by simp
  have pw: "float_pow pow_rounded 10 3 = Inr 1000"
    unfolding float_pow_def pow_rounded_def Let_def p3 to_double_1000
    by (simp add: max_double_def)
  have add: "float_add 1 1000 = 1001"
    unfolding float_add_def using to_double_1001 by simp
  have dv: "float_truediv 1 1001 = Inr (4607078939487900 / 2 ^ 62)"
    unfolding float_truediv_def to_double_inv_1001 by simp
  have "get_expected_score_double pow_rounded (Elo_init (Some 1200) None 0 None) 2400
          = (case int_truediv (2400 - 1200) 400 of
               Inl e \<Rightarrow> Inl e
             | Inr x \<Rightarrow> (case float_pow pow_rounded 10 x of Inl e \<Rightarrow> Inl e
                         | Inr p \<Rightarrow> float_truediv 1 (float_add 1 p)))"
    by (simp add: get_expected_score_double_def Elo_init_def)
  also have "\<dots> = Inr (4607078939487900 / 2 ^ 62)"
    unfolding x sum.case pw add dv ..
  finally show ?thesis .
qed

section \<open>The rating update in double precision\<close>

lemma in_IntegerField_abs:
  assumes "in_IntegerField n"
  shows "\<bar>n\<bar> \<le> 2 ^ 53" and "\<bar>real_of_int n\<bar> \<le> 2 powr of_int 31"
proof -
  have n: "\<bar>n\<bar> \<le> 2147483648" using assms unfolding in_IntegerField_def by linarith
  then show "\<bar>n\<bar> \<le> 2 ^ 53" by simp
  have "\<bar>n\<bar> \<le> 2 ^ 31" using n by simp
  then have "\<bar>real_of_int n\<bar> \<le> 2 ^ 31"
    by (metis of_int_abs of_int_le_iff of_int_numeral of_int_power)
  then show "\<bar>real_of_int n\<bar> \<le> 2 powr of_int 31" by simp
qed

lemma int_to_float_IntegerField:
  assumes "in_IntegerField n"
  shows "int_to_float n = Inr (of_int n)"
proof -
  have "to_double (of_int n) = of_int n"
    using in_IntegerField_abs(1) [OF assms] by (rule to_double_of_int)
  moreover have "\<bar>real_of_int n\<bar> \<le> max_double"
  proof -
    have "(2::real) powr of_int 31 \<le> max_double" by (simp add: max_double_def)
    then show ?thesis using in_IntegerField_abs(2) [OF assms] by linarith
  qed
  ultimately show ?thesis by (simp add: int_to_float_def)
qed

lemma pow2_le_max_double:
  assumes "k \<le> 1023"
  shows "2 powr of_int k \<le> max_double"
proof -
  have "(2::real) powr of_int k \<le> 2 powr of_int 1023"
    using assms by (intro powr_mono) simp_all
  then show ?thesis using max_double_ge by linarith
qed

text \<open>
  The call returns, with the rating the formula gives, whenever the expected score is
  returned, rating and k-factor are values of an \<^verbatim>\<open>IntegerField\<close> and the score is at
  most \<open>2 ^ 900\<close> in absolute value.
\<close>

lemma update_rating_double_returns:
  assumes E: "get_expected_score_double pw self opp = Inr E"
    and E01: "0 \<le> E" "E \<le> 1"
    and r: "in_IntegerField (rating self)" and k: "in_IntegerField (k_factor self)"
    and s: "\<bar>score\<bar> \<le> 2 powr of_int 900"
  shows "update_rating_double pw score opp now self
           = Inr (self\<lparr>rating := py_round (to_double (of_int (rating self)
                      + to_double (of_int (k_factor self) * to_double (to_double score - E)))),
                   updated_at := now\<rparr>)"
proof -
  define s' where "s' = to_double score"
  define diff where "diff = to_double (s' - E)"
  define product where "product = to_double (of_int (k_factor self) * diff)"
  define total where "total = to_double (of_int (rating self) + product)"
  have s'_abs: "\<bar>s'\<bar> \<le> 2 powr of_int 900"
    unfolding s'_def using s by (rule to_double_abs_le) simp
  then have s'_fin: "\<not> max_double < \<bar>s'\<bar>"
    using pow2_le_max_double [of 900] by simp
  have "(2::real) powr of_int 901 = 2 powr of_int 900 + 2 powr of_int 900"
    by (simp add: powr_add [of 2 "of_int 900" 1, simplified])
  moreover have "(1::real) \<le> 2 powr of_int 900" by (simp add: ge_one_powr_ge_zero)
  ultimately have "\<bar>s' - E\<bar> \<le> 2 powr of_int 901" using s'_abs E01 by linarith
  then have diff_abs: "\<bar>diff\<bar> \<le> 2 powr of_int 901"
    unfolding diff_def by (rule to_double_abs_le) simp
  have k_abs: "\<bar>real_of_int (k_factor self)\<bar> \<le> 2 powr of_int 31"
    using k by (rule in_IntegerField_abs)
  have "\<bar>of_int (k_factor self) * diff\<bar> \<le> 2 powr of_int 31 * 2 powr of_int 901"
    unfolding abs_mult using k_abs diff_abs by (intro mult_mono) simp_all
  also have "\<dots> = 2 powr of_int 932" by (simp add: powr_add [symmetric])
  finally have "\<bar>product\<bar> \<le> 2 powr of_int 932"
    unfolding product_def by (rule to_double_abs_le) simp
  then have product_abs: "\<bar>product\<bar> \<le> 2 powr of_int 932" .
  then have product_fin: "\<not> max_double < \<bar>product\<bar>"
    using pow2_le_max_double [of 932] by simp
  have r_abs: "\<bar>real_of_int (rating self)\<bar> \<le> 2 powr of_int 31"
    using r by (rule in_IntegerField_abs)
  have "(2::real) powr of_int 31 \<le> 2 powr of_int 932" by (intro powr_mono) simp_all
  moreover have "(2::real) powr of_int 933 = 2 powr of_int 932 + 2 powr of_int 932"
    by (simp add: powr_add [of 2 "of_int 932" 1, simplified])
  ultimately have "\<bar>of_int (rating self) + product\<bar> \<le> 2 powr of_int 933"
    using r_abs product_abs by linarith
  then have "\<bar>total\<bar> \<le> 2 powr of_int 933"
    unfolding total_def by (rule to_double_abs_le) simp
  then have total_fin: "\<not> max_double < \<bar>total\<bar>"
    using pow2_le_max_double [of 933] by simp
  show ?thesis
    unfolding update_rating_double_def E sum.case Let_def
      int_to_float_IntegerField [OF r] int_to_float_IntegerField [OF k]
    using s'_fin product_fin total_fin
    by (simp add: s'_def diff_def product_def total_def Elo_save_def)
qed

text \<open>
  For a score between 0 and 1 the double handed to \<^verbatim>\<open>round\<close> is within \<open>2 powr - 20\<close> of
  \<open>R + K * (s - E)\<close>.
\<close>

lemma update_rating_double_value:
  assumes E01: "0 \<le> E" "E \<le> 1"
    and r: "in_IntegerField R" and k: "in_IntegerField K"
    and s: "0 \<le> s" "s \<le> 1"
  shows "\<bar>to_double (of_int R + to_double (of_int K * to_double (s - E)))
          - (of_int R + of_int K * (s - E))\<bar> \<le> 2 powr (- 20)"
proof -
  define diff where "diff = to_double (s - E)"
  define product where "product = to_double (of_int K * diff)"
  define total where "total = to_double (of_int R + product)"
  have k_abs: "\<bar>real_of_int K\<bar> \<le> 2 powr of_int 31" using k by (rule in_IntegerField_abs)
  have r_abs: "\<bar>real_of_int R\<bar> \<le> 2 powr of_int 31" using r by (rule in_IntegerField_abs)
  have d1: "\<bar>s - E\<bar> \<le> 2 powr of_int 0" using E01 s by simp
  have diff_err: "\<bar>diff - (s - E)\<bar> \<le> 2 powr of_int (0 - 53)"
    unfolding diff_def using d1 by (rule to_double_error) simp
  have diff_abs: "\<bar>diff\<bar> \<le> 2 powr of_int 0"
    unfolding diff_def using d1 by (rule to_double_abs_le) simp
  have kd: "\<bar>of_int K * diff\<bar> \<le> 2 powr of_int 31"
  proof -
    have "\<bar>of_int K * diff\<bar> \<le> 2 powr of_int 31 * 2 powr of_int 0"
      unfolding abs_mult using k_abs diff_abs by (intro mult_mono) simp_all
    then show ?thesis by simp
  qed
  have product_err: "\<bar>product - of_int K * diff\<bar> \<le> 2 powr of_int (31 - 53)"
    unfolding product_def using kd by (rule to_double_error) simp
  have product_abs: "\<bar>product\<bar> \<le> 2 powr of_int 31"
    unfolding product_def using kd by (rule to_double_abs_le) simp
  have "(2::real) powr of_int 32 = 2 powr of_int 31 + 2 powr of_int 31"
    by (simp add: powr_add [of 2 "of_int 31" 1, simplified])
  then have "\<bar>of_int R + product\<bar> \<le> 2 powr of_int 32"
    using r_abs product_abs by linarith
  then have total_err: "\<bar>total - (of_int R + product)\<bar> \<le> 2 powr of_int (32 - 53)"
    unfolding total_def by (rule to_double_error) simp
  have "\<bar>of_int K * diff - of_int K * (s - E)\<bar> = \<bar>of_int K\<bar> * \<bar>diff - (s - E)\<bar>"
    by (simp add: abs_mult [symmetric] right_diff_distrib)
  also have "\<dots> \<le> 2 powr of_int 31 * 2 powr of_int (0 - 53)"
    using k_abs diff_err by (intro mult_mono) simp_all
  also have "\<dots> = 2 powr (- 22)" by (simp add: powr_minus_divide)
  finally have scaled: "\<bar>of_int K * diff - of_int K * (s - E)\<bar> \<le> 2 powr (- 22)" .
  have "\<bar>total - (of_int R + of_int K * (s - E))\<bar>
          \<le> \<bar>total - (of_int R + product)\<bar> + \<bar>product - of_int K * diff\<bar>
              + \<bar>of_int K * diff - of_int K * (s - E)\<bar>"
    by linarith
  also have "\<dots> \<le> 2 powr (- 21) + 2 powr (- 22) + 2 powr (- 22)"
    using total_err product_err scaled by simp
  also have "\<dots> = 2 powr (- 20)" by (simp add: powr_minus_divide)
  finally show ?thesis unfolding total_def product_def diff_def .
qed

lemma to_double_numeral:
  "(numeral w :: int) \<le> 2 ^ 53 \<Longrightarrow> to_double (numeral w) = numeral w"
  using to_double_of_int [of "numeral w"] by simp

lemma to_double_three_halves: "to_double (3 / 2) = 3 / 2"
  using to_double_exact [of 0 "3 * 2 ^ 51"] by (simp add: powr_minus_divide)

lemma int_to_float_exact:
  assumes "\<bar>n\<bar> \<le> 2 ^ 53"
  shows "int_to_float n = Inr (of_int n)"
proof -
  have "to_double (of_int n) = of_int n" using assms by (rule to_double_of_int)
  moreover have "\<bar>real_of_int n\<bar> \<le> 2 ^ 53"
    using assms by (metis of_int_abs of_int_le_iff of_int_numeral of_int_power)
  moreover have "(2 ^ 53 :: real) \<le> max_double" by (simp add: max_double_def)
  ultimately show ?thesis by (simp add: int_to_float_def)
qed

lemma int_to_float_numeral:
  "(numeral w :: int) \<le> 2 ^ 53 \<Longrightarrow> int_to_float (numeral w) = Inr (numeral w)"
  using int_to_float_exact [of "numeral w"] by simp

text \<open>The default rating 1200 and k-factor 32 against an opponent rated 1200.\<close>

lemma update_rating_double_default:
  assumes "pow_accurate pw" and "rating self = 1200" and "k_factor self = 32"
  shows "update_rating_double pw 1 1200 now self = Inr (self\<lparr>rating := 1216, updated_at := now\<rparr>)"
    and "update_rating_double pw 0 1200 now self = Inr (self\<lparr>rating := 1184, updated_at := now\<rparr>)"
    and "update_rating_double pw 2 1200 now self = Inr (self\<lparr>rating := 1248, updated_at := now\<rparr>)"
proof -
  have E: "get_expected_score_double pw self 1200 = Inr (1 / 2)"
    using expected_score_double_equal [OF assms(1), of self] assms(2) by simp
  note ev = to_double_zero to_double_one to_double_two to_double_half to_double_three_halves
    to_double_minus to_double_numeral int_to_float_numeral max_double_def py_round_def Elo_save_def
  show "update_rating_double pw 1 1200 now self = Inr (self\<lparr>rating := 1216, updated_at := now\<rparr>)"
    unfolding update_rating_double_def E sum.case Let_def assms(2,3)
    by (simp add: ev)
  show "update_rating_double pw 0 1200 now self = Inr (self\<lparr>rating := 1184, updated_at := now\<rparr>)"
    unfolding update_rating_double_def E sum.case Let_def assms(2,3)
    by (simp add: ev)
  show "update_rating_double pw 2 1200 now self = Inr (self\<lparr>rating := 1248, updated_at := now\<rparr>)"
    unfolding update_rating_double_def E sum.case Let_def assms(2,3)
    by (simp add: ev)
qed

lemma update_rating_double_InrD:
  assumes "update_rating_double pw score opp now self = Inr self'"
  shows "\<exists>E. get_expected_score_double pw self opp = Inr E
           \<and> self' = self\<lparr>rating :=
                  py_round (to_double (to_double (of_int (rating self))
                    + to_double (to_double (of_int (k_factor self)) * to_double (to_double score - E)))),
                updated_at := now\<rparr>"
  using assms
  by (auto simp: update_rating_double_def int_to_float_def Let_def Elo_save_def
      split: sum.splits if_splits)

text \<open>
  A game between players rated 3200 and 0 with the k-factor 150000002, operation by
  operation: \<^verbatim>\<open>10 ** -8.0\<close> is the double next to \<open>1 / 10 ^ 8\<close>, \<^verbatim>\<open>10 ** 8.0\<close> is
  \<open>10 ^ 8\<close>.
\<close>

lemma expected_score_double_3200_0:
  "get_expected_score_double pow_rounded (Elo_init (Some 3200) (Some 150000002) 0 None) 0
     = Inr (9007199164669001 / 2 ^ 53)"
proof -
  have x: "int_truediv (0 - 3200) 400 = Inr (- 8)"
    by (simp add: int_truediv_def to_double_minus to_double_numeral max_double_def)
  have p8: "(10::real) powr (- 8) = 1 / 100000000" by (simp add: powr_minus_divide)
  have tp: "to_double (1 / 100000000) = 6044629098073146 / 2 ^ 79"
    using to_double_eq [of "- 27" "1 / 100000000" 6044629098073146]
    by (simp add: powr_minus_divide)
  have pw: "float_pow pow_rounded 10 (- 8) = Inr (6044629098073146 / 2 ^ 79)"
    unfolding float_pow_def pow_rounded_def Let_def p8 tp
    by (simp add: max_double_def)
  have add: "float_add 1 (6044629098073146 / 2 ^ 79) = 4503599672406492 / 2 ^ 52"
    unfolding float_add_def
    using to_double_eq [of 0 "1 + 6044629098073146 / 2 ^ 79" 4503599672406492]
    by (simp add: powr_minus_divide)
  have dv: "float_truediv 1 (4503599672406492 / 2 ^ 52) = Inr (9007199164669001 / 2 ^ 53)"
    unfolding float_truediv_def
    using to_double_eq [of "- 1" "1 / (4503599672406492 / 2 ^ 52)" 9007199164669001]
    by (simp add: powr_minus_divide)
  have "get_expected_score_double pow_rounded (Elo_init (Some 3200) (Some 150000002) 0 None) 0
          = (case int_truediv (0 - 3200) 400 of
               Inl e \<Rightarrow> Inl e
             | Inr x \<Rightarrow> (case float_pow pow_rounded 10 x of Inl e \<Rightarrow> Inl e
                         | Inr p \<Rightarrow> float_truediv 1 (float_add 1 p)))"
    by (simp add: get_expected_score_double_def Elo_init_def)
  also have "\<dots> = Inr (9007199164669001 / 2 ^ 53)"
    unfolding x sum.case pw add dv ..
  finally show ?thesis .
qed

lemma expected_score_double_0_3200:
  "get_expected_score_double pow_rounded (Elo_init (Some 0) (Some 150000002) 0 None) 3200
     = Inr (6044629037626855 / 2 ^ 79)"
proof -
  have x: "int_truediv (3200 - 0) 400 = Inr 8"
    by (simp add: int_truediv_def to_double_numeral max_double_def)
  have p8: "(10::real) powr 8 = 100000000" by simp
  have pw: "float_pow pow_rounded 10 8 = Inr 100000000"
    unfolding float_pow_def pow_rounded_def Let_def p8
    by (simp add: to_double_numeral max_double_def)
  have add: "float_add 1 100000000 = 100000001"
    unfolding float_add_def by (simp add: to_double_numeral)
  have dv: "float_truediv 1 100000001 = Inr (6044629037626855 / 2 ^ 79)"
    unfolding float_truediv_def
    using to_double_eq [of "- 27" "1 / 100000001" 6044629037626855]
    by (simp add: powr_minus_divide)
  have "get_expected_score_double pow_rounded (Elo_init (Some 0) (Some 150000002) 0 None) 3200
          = (case int_truediv (3200 - 0) 400 of
               Inl e \<Rightarrow> Inl e
             | Inr x \<Rightarrow> (case float_pow pow_rounded 10 x of Inl e \<Rightarrow> Inl e
                         | Inr p \<Rightarrow> float_truediv 1 (float_add 1 p)))"
    by (simp add: get_expected_score_double_def Elo_init_def)
  also have "\<dots> = Inr (6044629037626855 / 2 ^ 79)"
    unfolding x sum.case pw add dv ..
  finally show ?thesis .
qed

lemma update_rating_double_3200_0:
  "update_rating_double pow_rounded 1 0 1 (Elo_init (Some 3200) (Some 150000002) 0 None)
     = Inr ((Elo_init (Some 3200) (Some 150000002) 0 None)\<lparr>rating := 3201, updated_at := 1\<rparr>)"
proof -
  have d: "to_double (1 - 9007199164669001 / 2 ^ 53) = 6044628994228224 / 2 ^ 79"
    using to_double_eq [of "- 27" "1 - 9007199164669001 / 2 ^ 53" 6044628994228224]
    by (simp add: powr_minus_divide)
  have pr: "to_double (150000002 * (6044628994228224 / 2 ^ 79)) = 6755399415071991 / 2 ^ 52"
    using to_double_eq [of 0 "150000002 * (6044628994228224 / 2 ^ 79)" 6755399415071991]
    by (simp add: powr_minus_divide)
  have tot: "to_double (3200 + 6755399415071991 / 2 ^ 52) = 7040172952637041 / 2 ^ 41"
    using to_double_eq [of 11 "3200 + 6755399415071991 / 2 ^ 52" 7040172952637041]
    by (simp add: powr_minus_divide)
  have rnd: "py_round (7040172952637041 / 2 ^ 41) = 3201"
    by (rule py_round_unique) simp
  have fin: "\<not> max_double < \<bar>6755399415071991 / 2 ^ 52 :: real\<bar>"
    "\<not> max_double < \<bar>7040172952637041 / 2 ^ 41 :: real\<bar>"
    by (simp_all add: max_double_def)
  have k: "int_to_float (k_factor (Elo_init (Some 3200) (Some 150000002) 0 None)) = Inr 150000002"
    by (simp add: Elo_init_def int_to_float_numeral)
  have r: "int_to_float (rating (Elo_init (Some 3200) (Some 150000002) 0 None)) = Inr 3200"
    by (simp add: Elo_init_def int_to_float_numeral)
  show ?thesis
    unfolding update_rating_double_def expected_score_double_3200_0 sum.case Let_def
      to_double_one k r d pr tot rnd
    using fin by (simp add: max_double_def Elo_save_def)
qed

lemma update_rating_double_0_3200:
  "update_rating_double pow_rounded 0 3200 1 (Elo_init (Some 0) (Some 150000002) 0 None)
     = Inr ((Elo_init (Some 0) (Some 150000002) 0 None)\<lparr>rating := - 2, updated_at := 1\<rparr>)"
proof -
  have d: "to_double (0 - 6044629037626855 / 2 ^ 79) = - (6044629037626855 / 2 ^ 79)"
    using to_double_eq [of "- 27" "0 - 6044629037626855 / 2 ^ 79" "- 6044629037626855"]
    by (simp add: powr_minus_divide)
  have pr: "to_double (150000002 * - (6044629037626855 / 2 ^ 79)) = - (6755399463573741 / 2 ^ 52)"
    using to_double_eq [of 0 "150000002 * - (6044629037626855 / 2 ^ 79)" "- 6755399463573741"]
    by (simp add: powr_minus_divide)
  have tot: "to_double (0 + - (6755399463573741 / 2 ^ 52)) = - (6755399463573741 / 2 ^ 52)"
    using to_double_eq [of 0 "0 + - (6755399463573741 / 2 ^ 52)" "- 6755399463573741"]
    by (simp add: powr_minus_divide)
  have rnd: "py_round (- (6755399463573741 / 2 ^ 52)) = - 2"
    by (rule py_round_unique) simp
  have fin: "\<not> max_double < \<bar>- (6755399463573741 / 2 ^ 52) :: real\<bar>"
    by (simp add: max_double_def)
  have k: "int_to_float (k_factor (Elo_init (Some 0) (Some 150000002) 0 None)) = Inr 150000002"
    by (simp add: Elo_init_def int_to_float_numeral)
  have r: "int_to_float (rating (Elo_init (Some 0) (Some 150000002) 0 None)) = Inr 0"
    using int_to_float_exact [of 0] by (simp add: Elo_init_def)
  show ?thesis
    unfolding update_rating_double_def expected_score_double_0_3200 sum.case Let_def
      to_double_zero k r d pr tot rnd
    using fin by (simp add: max_double_def Elo_save_def)
qed

text \<open>
  The exponent handed to \<^verbatim>\<open>pow\<close> is the double next to \<open>(O - R) / 400\<close>, not that
  quotient itself; the lemmas below bound what this costs.
\<close>

lemma ln_10_le_4: "ln (10::real) \<le> 4"
proof -
  have "ln (10::real) \<le> ln (2 ^ 4)" by (subst ln_le_cancel_iff) simp_all
  also have "\<dots> = 4 * ln 2" using ln_realpow [of 2 4] by simp
  also have "\<dots> \<le> 4 * 1" using ln_2_less_1 by (intro mult_left_mono) simp_all
  finally show ?thesis by simp
qed

lemma ten_powr_near_one:
  fixes h :: real
  assumes "\<bar>h\<bar> \<le> 1 / 8"
  shows "\<bar>10 powr h - 1\<bar> \<le> 8 * \<bar>h\<bar>"
proof -
  define t where "t = h * ln 10"
  have e: "10 powr h = exp t" by (simp add: powr_def t_def)
  have ln_pos: "0 \<le> ln (10::real)" by simp
  have "\<bar>t\<bar> = \<bar>h\<bar> * ln 10" unfolding t_def by (simp add: abs_mult)
  also have "\<dots> \<le> \<bar>h\<bar> * 4" using ln_10_le_4 by (intro mult_left_mono) simp_all
  finally have t4: "\<bar>t\<bar> \<le> 4 * \<bar>h\<bar>" by simp
  show ?thesis
  proof (cases "0 \<le> t")
    case True
    then have "t \<le> 1 / 2" using t4 assms by linarith
    then have "exp t \<le> 1 + 2 * t" using True by (intro real_exp_bound_lemma)
    moreover have "1 \<le> exp t" using True by simp
    ultimately show ?thesis unfolding e using t4 True by linarith
  next
    case False
    then have "exp t \<le> 1" by simp
    moreover have "1 + t \<le> exp t" by (rule exp_ge_add_one_self)
    ultimately show ?thesis unfolding e using t4 False by linarith
  qed
qed

lemma expected_score_double_exact:
  assumes acc: "pow_accurate pw" and res: "get_expected_score_double pw self opp = Inr E"
    and lo: "- 4294967296 \<le> opp - rating self" and hi: "opp - rating self \<le> 123200"
  shows "\<bar>E - get_expected_score self opp\<bar> \<le> 2 powr (- 40)"
proof -
  define y where "y = real_of_int (opp - rating self) / 400"
  define x where "x = to_double y"
  define h where "h = x - y"
  define qx :: real where "qx = 10 powr x"
  define qy :: real where "qy = 10 powr y"
  have qx0: "0 < qx" and qy0: "0 < qy" by (simp_all add: qx_def qy_def)
  have d_lo: "- 4294967296 \<le> real_of_int (opp - rating self)"
    using lo by (metis of_int_le_iff of_int_minus of_int_numeral)
  have d_hi: "real_of_int (opp - rating self) \<le> 123200"
    using hi by (metis of_int_le_iff of_int_numeral)
  have y_hi: "y \<le> 308" and y_lo: "- 16777216 \<le> y"
    unfolding y_def using d_lo d_hi by simp_all
  have expand: "(1 + qx) * (1 + qy) = 1 + qx + qy + qx * qy" by (simp add: algebra_simps)
  have "0 < qx * qy" using qx0 qy0 by simp
  then have den: "qy \<le> (1 + qx) * (1 + qy)" "1 \<le> (1 + qx) * (1 + qy)"
    unfolding expand using qx0 qy0 by linarith+
  define c where "c = qy / ((1 + qx) * (1 + qy))"
  have c0: "0 \<le> c" and c1: "c \<le> 1" and cq: "c \<le> qy"
  proof -
    show "0 \<le> c" unfolding c_def using qy0 den by simp
    show "c \<le> 1" unfolding c_def using den by simp
    have "qy / ((1 + qx) * (1 + qy)) \<le> qy / 1"
      using den qy0 by (intro divide_left_mono) simp_all
    then show "c \<le> qy" by (simp add: c_def)
  qed
  have "x = y + h" by (simp add: h_def)
  then have "qx = qy * 10 powr h" unfolding qx_def qy_def by (simp add: powr_add)
  then have "qx - qy = qy * (10 powr h - 1)" by (simp add: algebra_simps)
  then have num: "\<bar>qx - qy\<bar> = qy * \<bar>10 powr h - 1\<bar>"
    using qy0 by (simp add: abs_mult)
  have "\<bar>1 / (1 + qx) - 1 / (1 + qy)\<bar> = \<bar>(1 + qx) - (1 + qy)\<bar> / ((1 + qx) * (1 + qy))"
    using qx0 qy0 by (intro recip_diff) simp_all
  also have "\<dots> = \<bar>10 powr h - 1\<bar> * c"
    using num by (simp add: c_def)
  finally have diff: "\<bar>1 / (1 + qx) - 1 / (1 + qy)\<bar> = \<bar>10 powr h - 1\<bar> * c" .
  have step: "\<bar>10 powr h - 1\<bar> * c \<le> 1 / 2 ^ 41"
  proof (cases "- 308 \<le> y")
    case True
    then have "\<bar>y\<bar> \<le> 2 powr of_int 9" using y_hi by simp
    then have "\<bar>to_double y - y\<bar> \<le> 2 powr of_int (9 - 53)"
      by (rule to_double_error) simp
    then have h44: "\<bar>h\<bar> \<le> 1 / 2 ^ 44"
      by (simp add: h_def x_def powr_minus_divide)
    then have "\<bar>h\<bar> \<le> 1 / 8" by simp
    then have "\<bar>10 powr h - 1\<bar> \<le> 8 * \<bar>h\<bar>" by (rule ten_powr_near_one)
    then have ph: "\<bar>10 powr h - 1\<bar> \<le> 1 / 2 ^ 41" using h44 by simp
    have "\<bar>10 powr h - 1\<bar> * c \<le> \<bar>10 powr h - 1\<bar> * 1"
      using c1 by (intro mult_left_mono) simp_all
    then show ?thesis using ph by simp
  next
    case False
    have "\<bar>y\<bar> \<le> 2 powr of_int 24" using y_lo y_hi by simp
    then have "\<bar>to_double y - y\<bar> \<le> 2 powr of_int (24 - 53)"
      by (rule to_double_error) simp
    then have h29: "\<bar>h\<bar> \<le> 1 / 2 ^ 29"
      by (simp add: h_def x_def powr_minus_divide)
    then have "\<bar>h\<bar> \<le> 1 / 8" by simp
    then have "\<bar>10 powr h - 1\<bar> \<le> 8 * \<bar>h\<bar>" by (rule ten_powr_near_one)
    then have ph: "\<bar>10 powr h - 1\<bar> \<le> 1" using h29 by simp
    have "qy \<le> 10 powr (- 308)"
      unfolding qy_def using False by (intro powr_mono) simp_all
    also have "(10::real) powr (- 308) \<le> 1 / 2 ^ 41" by (simp add: powr_minus_divide)
    finally have "c \<le> 1 / 2 ^ 41" using cq by linarith
    moreover have "\<bar>10 powr h - 1\<bar> * c \<le> 1 * c"
      using ph c0 by (intro mult_right_mono) simp_all
    ultimately show ?thesis by simp
  qed
  have "\<bar>E - 1 / (1 + qx)\<bar> \<le> 2 powr (- 49)"
    using expected_score_double_close [OF acc res] by (simp only: qx_def x_def y_def)
  then have "\<bar>E - 1 / (1 + qx)\<bar> \<le> 1 / 2 ^ 49" by (simp add: powr_minus_divide)
  then have "\<bar>E - 1 / (1 + qy)\<bar> \<le> 1 / 2 ^ 49 + 1 / 2 ^ 41"
    using step diff by linarith
  also have "\<dots> \<le> (2::real) powr (- 40)" by (simp add: powr_minus_divide)
  finally show ?thesis by (simp only: get_expected_score_def qy_def y_def)
qed

text \<open>
  With ratings and k-factor in the range of an \<^verbatim>\<open>IntegerField\<close>, an opponent at most
  123200 points ahead and a score of 0, 0.5 or 1, the call returns, and the double that
  \<^verbatim>\<open>round\<close> receives is within \<open>2 powr - 8\<close> of the exact \<open>R + K * (s - E)\<close>.
\<close>

lemma update_rating_double_close:
  assumes acc: "pow_accurate pw"
    and r: "in_IntegerField (rating self)" and k: "in_IntegerField (k_factor self)"
    and o: "in_IntegerField opp" and hi: "opp - rating self \<le> 123200"
    and s: "score \<in> {0, 1 / 2, 1}"
  shows "\<exists>v. update_rating_double pw score opp now self
                = Inr (self\<lparr>rating := py_round v, updated_at := now\<rparr>)
             \<and> \<bar>v - (of_int (rating self)
                      + of_int (k_factor self) * (score - get_expected_score self opp))\<bar>
                 \<le> 2 powr (- 8)"
proof -
  have lo: "- 4294967296 \<le> opp - rating self"
    using r o unfolding in_IntegerField_def by linarith
  obtain E where E: "get_expected_score_double pw self opp = Inr E"
    using expected_score_double_returns [OF acc lo hi] by blast
  have E01: "0 \<le> E" "E \<le> 1" using expected_score_double_range [OF acc E] by simp_all
  from s consider "score = 0" | "score = 1 / 2" | "score = 1" by blast
  then have ts: "to_double score = score"
    by cases (simp_all only: to_double_zero to_double_one to_double_half)
  have s01: "0 \<le> score" "score \<le> 1" using s by auto
  have "(1::real) \<le> 2 powr of_int 900" by simp
  then have sb: "\<bar>score\<bar> \<le> 2 powr of_int 900" using s01 by linarith
  define v where "v = to_double (of_int (rating self)
                     + to_double (of_int (k_factor self) * to_double (score - E)))"
  have ret: "update_rating_double pw score opp now self
               = Inr (self\<lparr>rating := py_round v, updated_at := now\<rparr>)"
    using update_rating_double_returns [OF E E01 r k sb, of now] by (simp only: ts v_def)
  have val: "\<bar>v - (of_int (rating self) + of_int (k_factor self) * (score - E))\<bar> \<le> 2 powr (- 20)"
    unfolding v_def using E01 r k s01 by (rule update_rating_double_value)
  define X where "X = get_expected_score self opp"
  define K where "K = real_of_int (k_factor self)"
  have ex: "\<bar>E - X\<bar> \<le> 1 / 2 ^ 40"
    using expected_score_double_exact [OF acc E lo hi] by (simp add: X_def powr_minus_divide)
  have kb: "\<bar>K\<bar> \<le> 2 ^ 31"
    using in_IntegerField_abs(2) [OF k] by (simp add: K_def)
  have "\<bar>K * (E - X)\<bar> = \<bar>K\<bar> * \<bar>E - X\<bar>" by (simp add: abs_mult)
  also have "\<dots> \<le> 2 ^ 31 * (1 / 2 ^ 40)"
    using kb ex by (intro mult_mono) simp_all
  finally have kex: "\<bar>K * (E - X)\<bar> \<le> 1 / 2 ^ 9" by simp
  have split: "K * (score - X) = K * (score - E) + K * (E - X)" by (simp add: algebra_simps)
  have "\<bar>v - (of_int (rating self) + K * (score - E))\<bar> \<le> 1 / 2 ^ 20"
    using val by (simp add: K_def powr_minus_divide)
  then have "\<bar>v - (of_int (rating self) + K * (score - X))\<bar> \<le> 1 / 2 ^ 20 + 1 / 2 ^ 9"
    unfolding split using kex by linarith
  also have "\<dots> \<le> (2::real) powr (- 8)" by (simp add: powr_minus_divide)
  finally have "\<bar>v - (of_int (rating self) + of_int (k_factor self) * (score - get_expected_score self opp))\<bar>
                  \<le> 2 powr (- 8)"
    by (simp only: K_def X_def)
  with ret show ?thesis by blast
qed

text \<open>
  The two deltas of a decided game with a shared k-factor, as the doubles give them, add up
  to \<open>- 1\<close>, 0 or 1.
\<close>

lemma rating_deltas_double:
  assumes acc: "pow_accurate pw"
    and r1: "in_IntegerField (rating e1)" and r2: "in_IntegerField (rating e2)"
    and k1: "in_IntegerField (k_factor e1)" and keq: "k_factor e2 = k_factor e1"
    and gap: "\<bar>rating e2 - rating e1\<bar> \<le> 123200"
  shows "\<exists>n1 n2. update_rating_double pw 1 (rating e2) t1 e1
                    = Inr (e1\<lparr>rating := n1, updated_at := t1\<rparr>)
               \<and> update_rating_double pw 0 (rating e1) t2 e2
                    = Inr (e2\<lparr>rating := n2, updated_at := t2\<rparr>)
               \<and> \<bar>(n1 - rating e1) + (n2 - rating e2)\<bar> \<le> 1"
proof -
  have k2: "in_IntegerField (k_factor e2)" using k1 keq by simp
  have g1: "- 4294967296 \<le> rating e2 - rating e1" "rating e2 - rating e1 \<le> 123200"
    and g2: "- 4294967296 \<le> rating e1 - rating e2" "rating e1 - rating e2 \<le> 123200"
    using gap by linarith+
  obtain E1 where E1: "get_expected_score_double pw e1 (rating e2) = Inr E1"
    using expected_score_double_returns [OF acc g1] by blast
  obtain E2 where E2: "get_expected_score_double pw e2 (rating e1) = Inr E2"
    using expected_score_double_returns [OF acc g2] by blast
  have E1r: "0 \<le> E1" "E1 \<le> 1" using expected_score_double_range [OF acc E1] by simp_all
  have E2r: "0 \<le> E2" "E2 \<le> 1" using expected_score_double_range [OF acc E2] by simp_all
  define K where "K = real_of_int (k_factor e1)"
  define v1 where "v1 = to_double (of_int (rating e1) + to_double (K * to_double (1 - E1)))"
  define v2 where "v2 = to_double (of_int (rating e2) + to_double (K * to_double (0 - E2)))"
  have b1: "\<bar>(1::real)\<bar> \<le> 2 powr of_int 900" and b0: "\<bar>(0::real)\<bar> \<le> 2 powr of_int 900"
    by simp_all
  have ret1: "update_rating_double pw 1 (rating e2) t1 e1
                = Inr (e1\<lparr>rating := py_round v1, updated_at := t1\<rparr>)"
    using update_rating_double_returns [OF E1 E1r r1 k1 b1, of t1]
    by (simp only: to_double_one v1_def K_def)
  have ret2: "update_rating_double pw 0 (rating e1) t2 e2
                = Inr (e2\<lparr>rating := py_round v2, updated_at := t2\<rparr>)"
    using update_rating_double_returns [OF E2 E2r r2 k2 b0, of t2]
    by (simp only: to_double_zero v2_def K_def keq)
  define a1 where "a1 = K * (1 - E1)"
  define a2 where "a2 = K * (0 - E2)"
  have "\<bar>v1 - (of_int (rating e1) + K * (1 - E1))\<bar> \<le> 2 powr (- 20)"
    unfolding v1_def K_def using E1r r1 k1 by (intro update_rating_double_value) simp_all
  moreover have "(2::real) powr (- 20) = 1 / 1048576" by (simp add: powr_minus_divide)
  ultimately have val1: "\<bar>v1 - (of_int (rating e1) + a1)\<bar> \<le> 1 / 1048576"
    by (simp only: a1_def)
  have "\<bar>v2 - (of_int (rating e2) + K * (0 - E2))\<bar> \<le> 2 powr (- 20)"
    unfolding v2_def K_def using E2r r2 k1 by (intro update_rating_double_value) simp_all
  moreover have "(2::real) powr (- 20) = 1 / 1048576" by (simp add: powr_minus_divide)
  ultimately have val2: "\<bar>v2 - (of_int (rating e2) + a2)\<bar> \<le> 1 / 1048576"
    by (simp only: a2_def)
  have sum: "\<bar>E1 + E2 - 1\<bar> \<le> 1 / 2 ^ 48"
    using expected_scores_double_sum [OF acc E1 E2] by (simp add: powr_minus_divide)
  have kb: "\<bar>K\<bar> \<le> 2 ^ 31"
    using in_IntegerField_abs(2) [OF k1] by (simp add: K_def)
  define c where "c = K * (E1 + E2 - 1)"
  have "\<bar>c\<bar> = \<bar>K\<bar> * \<bar>E1 + E2 - 1\<bar>" by (simp add: c_def abs_mult)
  also have "\<dots> \<le> 2 ^ 31 * (1 / 2 ^ 48)"
    using kb sum by (intro mult_mono) simp_all
  finally have cb: "\<bar>c\<bar> \<le> 1 / 131072" by simp
  have eq: "a1 + a2 = - c" by (simp add: a1_def a2_def c_def algebra_simps)
  have n1: "\<bar>real_of_int (py_round v1) - v1\<bar> \<le> 1 / 2" by (rule py_round_nearest)
  have n2: "\<bar>real_of_int (py_round v2) - v2\<bar> \<le> 1 / 2" by (rule py_round_nearest)
  have "\<bar>(real_of_int (py_round v1) - of_int (rating e1))
          + (real_of_int (py_round v2) - of_int (rating e2))\<bar> < 2"
    using val1 val2 cb eq n1 n2 by linarith
  then have "\<bar>real_of_int ((py_round v1 - rating e1) + (py_round v2 - rating e2))\<bar> < 2"
    by simp
  then have "\<bar>(py_round v1 - rating e1) + (py_round v2 - rating e2)\<bar> < 2"
    by linarith
  then have "\<bar>(py_round v1 - rating e1) + (py_round v2 - rating e2)\<bar> \<le> 1" by linarith
  with ret1 ret2 show ?thesis by blast
qed





text \<open>The k-factor 16 at the default rating, against an opponent rated 1200.\<close>

lemma update_rating_double_k16:
  assumes "pow_accurate pw" and "rating self = 1200" and "k_factor self = 16"
  shows "update_rating_double pw 0 1200 now self = Inr (self\<lparr>rating := 1192, updated_at := now\<rparr>)"
proof -
  have E: "get_expected_score_double pw self 1200 = Inr (1 / 2)"
    using expected_score_double_equal [OF assms(1), of self] assms(2) by simp
  show ?thesis
    unfolding update_rating_double_def E sum.case Let_def assms(2,3)
    by (simp add: to_double_zero to_double_half to_double_minus to_double_numeral
        int_to_float_numeral max_double_def py_round_def Elo_save_def)
qed

text \<open>An opponent 200000 points ahead: \<^verbatim>\<open>10 ** 500.0\<close> raises.\<close>

lemma update_rating_double_overflow:
  "update_rating_double pow_rounded 1 200000 1 (Elo_init (Some 0) None 0 None) = Inl OverflowError"
  unfolding update_rating_double_def expected_score_double_overflow by simp

text \<open>The exact value of the formula for the player rated 3200 of the game above.\<close>

lemma exact_rating_3200_0:
  "py_round (of_int 3200 + of_int 150000002
       * (1 - get_expected_score (Elo_init (Some 3200) (Some 150000002) 0 None) 0)) = 3202"
proof -
  have p8: "(10::real) powr (- 8) = 1 / 100000000" by (simp add: powr_minus_divide)
  have e: "get_expected_score (Elo_init (Some 3200) (Some 150000002) 0 None) 0
             = 1 / (1 + 10 powr (- 8))"
    by (simp add: get_expected_score_def Elo_init_def)
  show ?thesis unfolding e p8 by (intro py_round_unique) simp
qed

section \<open>Claims on the rating update\<close>

text \<open>
  C1, as the code has it. With both ratings and the k-factor in the range of an
  \<^verbatim>\<open>IntegerField\<close>, an opponent at most 123200 points ahead and a score of 0, 1/2 or 1,
  \<^verbatim>\<open>update_rating\<close> computes an expected score \<open>E\<close> within \<open>2 powr - 40\<close> of
  \<open>1 / (1 + 10 powr ((O - R) / 400))\<close> and stores \<open>round v\<close>, the integer nearest to a
  double \<open>v\<close> (a tie going to the even one) that is within \<open>2 powr - 8\<close> of the exact
  \<open>R + K * (s - 1 / (1 + 10 powr ((O - R) / 400)))\<close>. The stored rating is the rounded
  exact value whenever the exact value is not within \<open>2 powr - 8\<close> of a tie. With
  \<open>R = 1200\<close>, \<open>O = 1200\<close> and \<open>K = 32\<close> the new rating is 1216 for \<open>s = 1\<close> and 1184 for
  \<open>s = 0\<close>.
\<close>

theorem update_rating_double_new_rating:
  assumes "pow_accurate pw"
    and "in_IntegerField (rating self)" and "in_IntegerField (k_factor self)"
    and "in_IntegerField opponent_rating" and "opponent_rating - rating self \<le> 123200"
    and "score \<in> {0, 1 / 2, 1}"
  shows "(\<exists>E v. get_expected_score_double pw self opponent_rating = Inr E
            \<and> \<bar>E - 1 / (1 + 10 powr (real_of_int (opponent_rating - rating self) / 400))\<bar>
                \<le> 2 powr (- 40)
            \<and> update_rating_double pw score opponent_rating now self
                = Inr (self\<lparr>rating := py_round v, updated_at := now\<rparr>)
            \<and> \<bar>of_int (py_round v) - v\<bar> \<le> 1 / 2
            \<and> \<bar>v - (of_int (rating self) + of_int (k_factor self)
                       * (score - 1 / (1 + 10 powr (real_of_int (opponent_rating - rating self) / 400))))\<bar>
                \<le> 2 powr (- 8)
            \<and> (\<bar>(of_int (rating self) + of_int (k_factor self)
                    * (score - get_expected_score self opponent_rating))
                  - of_int (rating (update_rating score opponent_rating now self))\<bar>
                  < 1 / 2 - 2 powr (- 8)
                \<longrightarrow> py_round v = rating (update_rating score opponent_rating now self)))
       \<and> update_rating_double pw 1 1200 now (self\<lparr>rating := 1200, k_factor := 32\<rparr>)
           = Inr (self\<lparr>rating := 1216, k_factor := 32, updated_at := now\<rparr>)
       \<and> update_rating_double pw 0 1200 now (self\<lparr>rating := 1200, k_factor := 32\<rparr>)
           = Inr (self\<lparr>rating := 1184, k_factor := 32, updated_at := now\<rparr>)"
proof -
  define X where "X = get_expected_score self opponent_rating"
  define ex where "ex = of_int (rating self) + of_int (k_factor self) * (score - X)"
  have lo: "- 4294967296 \<le> opponent_rating - rating self"
    using assms(2,4) unfolding in_IntegerField_def by linarith
  obtain E where E: "get_expected_score_double pw self opponent_rating = Inr E"
    using expected_score_double_returns [OF assms(1) lo assms(5)] by blast
  have Ex: "\<bar>E - X\<bar> \<le> 2 powr (- 40)"
    unfolding X_def using assms(1) E lo assms(5) by (rule expected_score_double_exact)
  obtain v where ret: "update_rating_double pw score opponent_rating now self
                         = Inr (self\<lparr>rating := py_round v, updated_at := now\<rparr>)"
    and val: "\<bar>v - ex\<bar> \<le> 2 powr (- 8)"
    using update_rating_double_close [OF assms, of now] unfolding ex_def X_def by blast
  have near: "\<bar>of_int (py_round v) - v\<bar> \<le> 1 / 2" by (rule py_round_nearest)
  have new: "rating (update_rating score opponent_rating now self) = py_round ex"
    by (simp add: update_rating_def Elo_save_def ex_def X_def)
  have agree: "\<bar>ex - of_int (py_round ex)\<bar> < 1 / 2 - 2 powr (- 8)
                 \<longrightarrow> py_round v = py_round ex"
  proof
    assume "\<bar>ex - of_int (py_round ex)\<bar> < 1 / 2 - 2 powr (- 8)"
    then have "\<bar>of_int (py_round ex) - v\<bar> < 1 / 2" using val by linarith
    then show "py_round v = py_round ex" by (rule py_round_unique)
  qed
  have main: "\<exists>E v. get_expected_score_double pw self opponent_rating = Inr E
            \<and> \<bar>E - X\<bar> \<le> 2 powr (- 40)
            \<and> update_rating_double pw score opponent_rating now self
                = Inr (self\<lparr>rating := py_round v, updated_at := now\<rparr>)
            \<and> \<bar>of_int (py_round v) - v\<bar> \<le> 1 / 2
            \<and> \<bar>v - ex\<bar> \<le> 2 powr (- 8)
            \<and> (\<bar>ex - of_int (rating (update_rating score opponent_rating now self))\<bar>
                  < 1 / 2 - 2 powr (- 8)
                \<longrightarrow> py_round v = rating (update_rating score opponent_rating now self))"
    unfolding new using E Ex ret near val agree by blast
  have win: "update_rating_double pw 1 1200 now (self\<lparr>rating := 1200, k_factor := 32\<rparr>)
           = Inr (self\<lparr>rating := 1216, k_factor := 32, updated_at := now\<rparr>)"
    using update_rating_double_default(1) [OF assms(1), of "self\<lparr>rating := 1200, k_factor := 32\<rparr>" now]
    by simp
  have loss: "update_rating_double pw 0 1200 now (self\<lparr>rating := 1200, k_factor := 32\<rparr>)
           = Inr (self\<lparr>rating := 1184, k_factor := 32, updated_at := now\<rparr>)"
    using update_rating_double_default(2) [OF assms(1), of "self\<lparr>rating := 1200, k_factor := 32\<rparr>" now]
    by simp
  from main win loss show ?thesis
    unfolding ex_def X_def get_expected_score_def by (intro conjI)
qed

theorem update_rating_double_new_rating_witness:
  "pow_accurate pow_rounded
   \<and> in_IntegerField (rating (Elo_init (Some 3200) (Some 150000002) 0 None))
   \<and> in_IntegerField (k_factor (Elo_init (Some 3200) (Some 150000002) 0 None))
   \<and> in_IntegerField 0
   \<and> 0 - rating (Elo_init (Some 3200) (Some 150000002) 0 None) \<le> 123200
   \<and> (1::real) \<in> {0, 1 / 2, 1}
   \<and> (\<exists>v. update_rating_double pow_rounded 1 0 1 (Elo_init (Some 3200) (Some 150000002) 0 None)
             = Inr ((Elo_init (Some 3200) (Some 150000002) 0 None)
                      \<lparr>rating := py_round v, updated_at := 1\<rparr>)
          \<and> \<bar>v - (3200 + 150000002 * (1 - 1 / (1 + 10 powr (- 8))))\<bar> \<le> 2 powr (- 8))
   \<and> update_rating_double pow_rounded 1 1200 1 (Elo_init None None 0 None)
       = Inr ((Elo_init None None 0 None)\<lparr>rating := 1216, updated_at := 1\<rparr>)"
proof -
  define self where "self = Elo_init (Some 3200) (Some 150000002) 0 None"
  have rt: "rating self = 3200" and kf: "k_factor self = 150000002"
    by (simp_all add: self_def Elo_init_def)
  have h: "in_IntegerField (rating self)" "in_IntegerField (k_factor self)"
    "in_IntegerField 0" "0 - rating self \<le> 123200" "(1::real) \<in> {0, 1 / 2, 1}"
    by (simp_all add: rt kf in_IntegerField_def)
  have d: "Elo_init None None 0 None = (Elo_init None None 0 None)\<lparr>rating := 1200, k_factor := 32\<rparr>"
    by (simp add: Elo_init_def)
  have "\<exists>v. update_rating_double pow_rounded 1 0 1 self
             = Inr (self\<lparr>rating := py_round v, updated_at := 1\<rparr>)
          \<and> \<bar>v - (3200 + 150000002 * (1 - 1 / (1 + 10 powr (- 8))))\<bar> \<le> 2 powr (- 8)"
    using update_rating_double_new_rating [OF pow_rounded_accurate h, of 1]
    unfolding rt kf by auto
  moreover have "update_rating_double pow_rounded 1 1200 1 (Elo_init None None 0 None)
       = Inr ((Elo_init None None 0 None)\<lparr>rating := 1216, updated_at := 1\<rparr>)"
    using update_rating_double_new_rating [OF pow_rounded_accurate h, of 1]
    by (simp add: self_def Elo_init_def)
  ultimately show ?thesis
    using pow_rounded_accurate h unfolding self_def by (intro conjI)
qed

text \<open>
  The claim C1 fails on the code. Against an opponent 200000 points ahead,
  \<^verbatim>\<open>10 ** 500.0\<close> raises \<^verbatim>\<open>OverflowError\<close> and no rating is set. With the k-factor
  150000002, the winner rated 3200 of a game against a player rated 0 is given 3201, where
  the formula has \<open>3201.500000005\<close> and its rounding 3202.
\<close>

theorem update_rating_double_new_rating_counterexample:
  "update_rating_double pow_rounded 1 200000 1 (Elo_init (Some 0) None 0 None) = Inl OverflowError
   \<and> update_rating_double pow_rounded 1 0 1 (Elo_init (Some 3200) (Some 150000002) 0 None)
       = Inr ((Elo_init (Some 3200) (Some 150000002) 0 None)\<lparr>rating := 3201, updated_at := 1\<rparr>)
   \<and> py_round (of_int 3200 + of_int 150000002
         * (1 - get_expected_score (Elo_init (Some 3200) (Some 150000002) 0 None) 0)) = 3202"
  using update_rating_double_overflow update_rating_double_3200_0 exact_rating_3200_0
  by (intro conjI)

text \<open>
  C2, as the code has it. For ratings \<open>R1\<close>, \<open>R2\<close> no more than 123200 apart and one
  k-factor shared by both players, all in the range of an \<^verbatim>\<open>IntegerField\<close>, the winner's
  update (score 1, against \<open>R2\<close>) and the loser's update (score 0, against \<open>R1\<close>) both
  return, and the two deltas add up to \<open>- 1\<close>, 0 or 1: each is rounded from its own double.
  In exact arithmetic the deltas cancel. With different k-factors they need not: from
  1200 and 1200, \<open>K = 32\<close> gains 16 where \<open>K = 16\<close> loses 8.
\<close>

theorem update_rating_double_deltas:
  assumes "pow_accurate pw"
    and "in_IntegerField (rating e1)" and "in_IntegerField (rating e2)"
    and "in_IntegerField (k_factor e1)" and "k_factor e2 = k_factor e1"
    and "\<bar>rating e2 - rating e1\<bar> \<le> 123200"
  shows "(\<exists>n1 n2. update_rating_double pw 1 (rating e2) t1 e1
                     = Inr (e1\<lparr>rating := n1, updated_at := t1\<rparr>)
                \<and> update_rating_double pw 0 (rating e1) t2 e2
                     = Inr (e2\<lparr>rating := n2, updated_at := t2\<rparr>)
                \<and> \<bar>(n1 - rating e1) + (n2 - rating e2)\<bar> \<le> 1)
       \<and> rating (update_rating 1 (rating e2) t1 e1) - rating e1
           = - (rating (update_rating 0 (rating e1) t2 e2) - rating e2)
       \<and> update_rating_double pw 1 1200 t1 (Elo_init None (Some 32) 0 None)
           = Inr ((Elo_init None (Some 32) 0 None)\<lparr>rating := 1200 + 16, updated_at := t1\<rparr>)
       \<and> update_rating_double pw 0 1200 t2 (Elo_init None (Some 16) 0 None)
           = Inr ((Elo_init None (Some 16) 0 None)\<lparr>rating := 1200 - 8, updated_at := t2\<rparr>)"
proof -
  have doubles: "\<exists>n1 n2. update_rating_double pw 1 (rating e2) t1 e1
                     = Inr (e1\<lparr>rating := n1, updated_at := t1\<rparr>)
                \<and> update_rating_double pw 0 (rating e1) t2 e2
                     = Inr (e2\<lparr>rating := n2, updated_at := t2\<rparr>)
                \<and> \<bar>(n1 - rating e1) + (n2 - rating e2)\<bar> \<le> 1"
    using assms by (rule rating_deltas_double)
  have exact: "rating (update_rating 1 (rating e2) t1 e1) - rating e1
           = - (rating (update_rating 0 (rating e1) t2 e2) - rating e2)"
    using assms(5) by (intro rating_delta_zero_sum) simp
  have k32: "update_rating_double pw 1 1200 t1 (Elo_init None (Some 32) 0 None)
           = Inr ((Elo_init None (Some 32) 0 None)\<lparr>rating := 1200 + 16, updated_at := t1\<rparr>)"
    using update_rating_double_default(1) [OF assms(1), of "Elo_init None (Some 32) 0 None" t1]
    by (simp add: Elo_init_def)
  have k16: "update_rating_double pw 0 1200 t2 (Elo_init None (Some 16) 0 None)
           = Inr ((Elo_init None (Some 16) 0 None)\<lparr>rating := 1200 - 8, updated_at := t2\<rparr>)"
    using update_rating_double_k16 [OF assms(1), of "Elo_init None (Some 16) 0 None" t2]
    by (simp add: Elo_init_def)
  from doubles exact k32 k16 show ?thesis by (intro conjI)
qed

theorem update_rating_double_deltas_witness:
  "pow_accurate pow_rounded
   \<and> in_IntegerField (rating (Elo_init (Some 3200) (Some 150000002) 0 None))
   \<and> in_IntegerField (rating (Elo_init (Some 0) (Some 150000002) 0 None))
   \<and> in_IntegerField (k_factor (Elo_init (Some 3200) (Some 150000002) 0 None))
   \<and> k_factor (Elo_init (Some 0) (Some 150000002) 0 None)
       = k_factor (Elo_init (Some 3200) (Some 150000002) 0 None)
   \<and> \<bar>rating (Elo_init (Some 0) (Some 150000002) 0 None)
        - rating (Elo_init (Some 3200) (Some 150000002) 0 None)\<bar> \<le> 123200
   \<and> rating (update_rating 1 0 1 (Elo_init (Some 3200) (Some 150000002) 0 None)) - 3200
       = - (rating (update_rating 0 3200 1 (Elo_init (Some 0) (Some 150000002) 0 None)) - 0)
   \<and> \<bar>(3201 - 3200) + (- 2 - 0)\<bar> \<le> (1::int)"
proof -
  define e1 where "e1 = Elo_init (Some 3200) (Some 150000002) 0 None"
  define e2 where "e2 = Elo_init (Some 0) (Some 150000002) 0 None"
  have v: "rating e1 = 3200" "rating e2 = 0" "k_factor e1 = 150000002" "k_factor e2 = 150000002"
    by (simp_all add: e1_def e2_def Elo_init_def)
  have h: "in_IntegerField (rating e1)" "in_IntegerField (rating e2)"
    "in_IntegerField (k_factor e1)" "k_factor e2 = k_factor e1"
    "\<bar>rating e2 - rating e1\<bar> \<le> 123200"
    by (simp_all add: v in_IntegerField_def)
  have "rating (update_rating 1 0 1 e1) - 3200 = - (rating (update_rating 0 3200 1 e2) - 0)"
    using update_rating_double_deltas [OF pow_rounded_accurate h, of 1 1]
    unfolding v by blast
  then show ?thesis
    using pow_rounded_accurate h unfolding e1_def e2_def by (intro conjI) simp_all
qed

text \<open>
  The claim C2 fails on the code. Two players with the k-factor 150000002, rated 3200 and
  0: the winner goes from 3200 to 3201 and the loser from 0 to \<open>- 2\<close>.
\<close>

theorem update_rating_double_deltas_counterexample:
  "k_factor (Elo_init (Some 3200) (Some 150000002) 0 None)
     = k_factor (Elo_init (Some 0) (Some 150000002) 0 None)
   \<and> update_rating_double pow_rounded 1 0 1 (Elo_init (Some 3200) (Some 150000002) 0 None)
       = Inr ((Elo_init (Some 3200) (Some 150000002) 0 None)\<lparr>rating := 3201, updated_at := 1\<rparr>)
   \<and> update_rating_double pow_rounded 0 3200 1 (Elo_init (Some 0) (Some 150000002) 0 None)
       = Inr ((Elo_init (Some 0) (Some 150000002) 0 None)\<lparr>rating := - 2, updated_at := 1\<rparr>)
   \<and> (3201 - 3200 :: int) \<noteq> - (- 2 - 0)"
proof -
  have "k_factor (Elo_init (Some 3200) (Some 150000002) 0 None)
     = k_factor (Elo_init (Some 0) (Some 150000002) 0 None)"
    by (simp add: Elo_init_def)
  moreover have "(3201 - 3200 :: int) \<noteq> - (- 2 - 0)" by simp
  ultimately show ?thesis
    using update_rating_double_3200_0 update_rating_double_0_3200 by (intro conjI)
qed






text \<open>
  C5, as the code has it. Every call of \<^verbatim>\<open>update_rating\<close> that returns stores the new
  rating and sets \<^verbatim>\<open>updated_at\<close> to the time of the call; it leaves the counters of
  wins, losses and draws, the k-factor and the player as they were. (A call that raises
  stores nothing: it has no instance to return.)
\<close>

theorem update_rating_double_effects:
  assumes "update_rating_double pw score opponent_rating now self = Inr self'"
  shows "(\<exists>E. get_expected_score_double pw self opponent_rating = Inr E
            \<and> rating self'
                = py_round (to_double (to_double (of_int (rating self))
                    + to_double (to_double (of_int (k_factor self))
                        * to_double (to_double score - E)))))
       \<and> updated_at self' = now
       \<and> wins self' = wins self
       \<and> losses self' = losses self
       \<and> draws self' = draws self
       \<and> k_factor self' = k_factor self
       \<and> player self' = player self"
proof -
  obtain E where E: "get_expected_score_double pw self opponent_rating = Inr E"
    and s: "self' = self\<lparr>rating :=
                  py_round (to_double (to_double (of_int (rating self))
                    + to_double (to_double (of_int (k_factor self)) * to_double (to_double score - E)))),
                updated_at := now\<rparr>"
    using update_rating_double_InrD [OF assms] by blast
  have "rating self' = py_round (to_double (to_double (of_int (rating self))
                    + to_double (to_double (of_int (k_factor self)) * to_double (to_double score - E))))"
    by (simp add: s)
  with E have first: "\<exists>E. get_expected_score_double pw self opponent_rating = Inr E
            \<and> rating self'
                = py_round (to_double (to_double (of_int (rating self))
                    + to_double (to_double (of_int (k_factor self))
                        * to_double (to_double score - E))))"
    by blast
  have rest: "updated_at self' = now" "wins self' = wins self" "losses self' = losses self"
    "draws self' = draws self" "k_factor self' = k_factor self" "player self' = player self"
    by (simp_all add: s)
  from first rest show ?thesis by (intro conjI)
qed

theorem update_rating_double_effects_witness:
  "update_rating_double pow_rounded 1 1200 1 (Elo_init None None 0 None)
     = Inr ((Elo_init None None 0 None)\<lparr>rating := 1216, updated_at := 1\<rparr>)
   \<and> updated_at ((Elo_init None None 0 None)\<lparr>rating := 1216, updated_at := 1\<rparr>) = 1
   \<and> wins ((Elo_init None None 0 None)\<lparr>rating := 1216, updated_at := 1\<rparr>)
       = wins (Elo_init None None 0 None)"
proof -
  have v: "rating (Elo_init None None 0 None) = 1200" "k_factor (Elo_init None None 0 None) = 32"
    by (simp_all add: Elo_init_def)
  have r: "update_rating_double pow_rounded 1 1200 1 (Elo_init None None 0 None)
     = Inr ((Elo_init None None 0 None)\<lparr>rating := 1216, updated_at := 1\<rparr>)"
    using v by (intro update_rating_double_default(1) [OF pow_rounded_accurate])
  show ?thesis
    using r update_rating_double_effects [OF r] by blast
qed

text \<open>
  The claim C5 fails on the code: a win (score 1) is stored, and the counter of wins is
  not one more than before; no counter has changed.
\<close>

theorem update_rating_double_counters_counterexample:
  "update_rating_double pow_rounded 1 1200 1 (Elo_init None None 0 None)
     = Inr ((Elo_init None None 0 None)\<lparr>rating := 1216, updated_at := 1\<rparr>)
   \<and> wins ((Elo_init None None 0 None)\<lparr>rating := 1216, updated_at := 1\<rparr>)
       \<noteq> wins (Elo_init None None 0 None) + 1
   \<and> wins ((Elo_init None None 0 None)\<lparr>rating := 1216, updated_at := 1\<rparr>) = 0
   \<and> losses ((Elo_init None None 0 None)\<lparr>rating := 1216, updated_at := 1\<rparr>) = 0
   \<and> draws ((Elo_init None None 0 None)\<lparr>rating := 1216, updated_at := 1\<rparr>) = 0"
proof -
  have v: "rating (Elo_init None None 0 None) = 1200" "k_factor (Elo_init None None 0 None) = 32"
    by (simp_all add: Elo_init_def)
  have "update_rating_double pow_rounded 1 1200 1 (Elo_init None None 0 None)
     = Inr ((Elo_init None None 0 None)\<lparr>rating := 1216, updated_at := 1\<rparr>)"
    using v by (intro update_rating_double_default(1) [OF pow_rounded_accurate])
  then show ?thesis by (simp add: Elo_init_def)
qed




section \<open>Claims on games, boards and claims\<close>

text \<open>
  C7. For every pair of players, distinct ones among them, \<^verbatim>\<open>CreateGame\<close> returns a Game
  of these two players whose Result is "Scheduled".
\<close>

theorem create_game_scheduled:
  "description (result (CreateGame u w b now)) = ''Scheduled''
   \<and> whites_player (CreateGame u w b now) = w
   \<and> blacks_player (CreateGame u w b now) = b"
  by (simp add: CreateGame_def Game_init_def Result_init_def SCHEDULED_def)

text \<open>
  C8. The Board of a freshly created Game, constructed with its default, has the layout
  \<^verbatim>\<open>rnbqkbnr/pppppppp/8/8/8/8/PPPPPPPP/RNBQKBNR w KQkq - 0 1\<close>: six fields separated
  by spaces (placement, side to move, castling rights, en-passant square, halfmove clock,
  fullmove number), whose placement field is the starting position of chess.
\<close>

theorem fresh_board_layout:
  "layout (board (Game_init u w b r (Board_init None t) now))
     = ''rnbqkbnr/pppppppp/8/8/8/8/PPPPPPPP/RNBQKBNR w KQkq - 0 1''
   \<and> fen_fields (layout (board (Game_init u w b r (Board_init None t) now)))
       = [''rnbqkbnr/pppppppp/8/8/8/8/PPPPPPPP/RNBQKBNR'', ''w'', ''KQkq'', ''-'', ''0'', ''1'']
   \<and> length (fen_fields (layout (board (Game_init u w b r (Board_init None t) now)))) = 6
   \<and> decode_placement (hd (fen_fields (layout (board (Game_init u w b r (Board_init None t) now)))))
       = standard_start
   \<and> halfmove_clock (board (Game_init u w b r (Board_init None t) now)) = Some 0"
proof -
  have l: "layout (board (Game_init u w b r (Board_init None t) now))
     = ''rnbqkbnr/pppppppp/8/8/8/8/PPPPPPPP/RNBQKBNR w KQkq - 0 1''"
    by (simp add: Game_init_def Board_init_def)
  have f: "fen_fields ''rnbqkbnr/pppppppp/8/8/8/8/PPPPPPPP/RNBQKBNR w KQkq - 0 1''
       = [''rnbqkbnr/pppppppp/8/8/8/8/PPPPPPPP/RNBQKBNR'', ''w'', ''KQkq'', ''-'', ''0'', ''1'']"
    by (simp add: fen_fields_def)
  have d: "decode_placement ''rnbqkbnr/pppppppp/8/8/8/8/PPPPPPPP/RNBQKBNR'' = standard_start"
    by (simp add: decode_placement_def standard_start_def digit_of_def eval_nat_numeral)
  have h: "halfmove_clock (board (Game_init u w b r (Board_init None t) now)) = Some 0"
    unfolding halfmove_clock_def l f by (simp add: parse_nat_def digit_of_def)
  show ?thesis
    unfolding l f using d h by simp
qed

text \<open>
  C9. For every game, a fifty-move claim is upheld if and only if the halfmove clock of
  the game's Board is at least 100: a Board with the halfmove clock 99 has the claim
  rejected, one with the halfmove clock 100 has it upheld.
\<close>

theorem fifty_moves_upheld_iff:
  assumes "claim_type claim = FIFTY_MOVES" and "halfmove_clock (board game) = Some n"
  shows "(evaluate game claim = Some Upheld \<longleftrightarrow> 100 \<le> n)
       \<and> (evaluate game claim = Some Rejected \<longleftrightarrow> n < 100)
       \<and> evaluate (game\<lparr>board := Board_init (Some ''4k3/8/8/8/8/8/8/4K2R w - - 99 80'') t\<rparr>) claim
           = Some Rejected
       \<and> evaluate (game\<lparr>board := Board_init (Some ''4k3/8/8/8/8/8/8/4K2R w - - 100 80'') t\<rparr>) claim
           = Some Upheld"
proof -
  have c99: "halfmove_clock (Board_init (Some ''4k3/8/8/8/8/8/8/4K2R w - - 99 80'') t) = Some 99"
    by (simp add: halfmove_clock_def fen_fields_def Board_init_def parse_nat_def digit_of_def)
  have c100: "halfmove_clock (Board_init (Some ''4k3/8/8/8/8/8/8/4K2R w - - 100 80'') t) = Some 100"
    by (simp add: halfmove_clock_def fen_fields_def Board_init_def parse_nat_def digit_of_def)
  show ?thesis
    using assms by (simp add: evaluate_def c99 c100)
qed

theorem fifty_moves_upheld_iff_witness:
  "claim_type \<lparr>claim_type = FIFTY_MOVES\<rparr> = FIFTY_MOVES
   \<and> evaluate
        (Game_init 7 (Player_init None None 1) (Player_init None None 2) (Result_init None)
           (Board_init None 0) 0)
        \<lparr>claim_type = FIFTY_MOVES\<rparr> = Some Rejected
   \<and> evaluate
        (Game_init 7 (Player_init None None 1) (Player_init None None 2) (Result_init None)
           (Board_init (Some ''4k3/8/8/8/8/8/8/4K2R w - - 100 80'') 0) 0)
        \<lparr>claim_type = FIFTY_MOVES\<rparr> = Some Upheld"
proof -
  have c0: "halfmove_clock (board (Game_init 7 (Player_init None None 1) (Player_init None None 2)
              (Result_init None) (Board_init None 0) 0)) = Some 0"
    by (simp add: Game_init_def halfmove_clock_def fen_fields_def Board_init_def parse_nat_def
        digit_of_def)
  have ct: "claim_type \<lparr>claim_type = FIFTY_MOVES\<rparr> = FIFTY_MOVES" by simp
  show ?thesis
    using fifty_moves_upheld_iff [OF ct c0, of 0]
    by (simp add: Game_init_def)
qed

section \<open>Claims on the two expected scores of a game\<close>

text \<open>
  C10, as the code has it. In exact arithmetic the expected score of a player rated \<open>a\<close>
  against \<open>b\<close> and that of a player rated \<open>b\<close> against \<open>a\<close> add up to exactly 1, and each
  lies strictly between 0 and 1. Of the doubles that \<^verbatim>\<open>_get_expected_score\<close> returns,
  each is above 0 and at most 1, and the two add up to 1 within \<open>2 powr - 48\<close>. For
  ratings no more than 123200 apart both calls return, each score within \<open>2 powr - 40\<close>
  of the exact one.
\<close>

theorem expected_scores_double_complementary:
  assumes "pow_accurate pw"
  shows "get_expected_score e1 (rating e2) + get_expected_score e2 (rating e1) = 1
       \<and> 0 < get_expected_score e1 (rating e2) \<and> get_expected_score e1 (rating e2) < 1
       \<and> 0 < get_expected_score e2 (rating e1) \<and> get_expected_score e2 (rating e1) < 1
       \<and> (get_expected_score_double pw e1 (rating e2) = Inr E1 \<longrightarrow> 0 < E1 \<and> E1 \<le> 1)
       \<and> (get_expected_score_double pw e1 (rating e2) = Inr E1
            \<and> get_expected_score_double pw e2 (rating e1) = Inr E2
          \<longrightarrow> \<bar>E1 + E2 - 1\<bar> \<le> 2 powr (- 48))
       \<and> (\<bar>rating e2 - rating e1\<bar> \<le> 123200
          \<longrightarrow> (\<exists>F1 F2. get_expected_score_double pw e1 (rating e2) = Inr F1
                  \<and> get_expected_score_double pw e2 (rating e1) = Inr F2
                  \<and> \<bar>F1 - get_expected_score e1 (rating e2)\<bar> \<le> 2 powr (- 40)
                  \<and> \<bar>F2 - get_expected_score e2 (rating e1)\<bar> \<le> 2 powr (- 40)))"
proof -
  have range: "get_expected_score_double pw e1 (rating e2) = Inr E1 \<longrightarrow> 0 < E1 \<and> E1 \<le> 1"
    using expected_score_double_range [OF assms, of e1 "rating e2" E1] by blast
  have sum: "get_expected_score_double pw e1 (rating e2) = Inr E1
            \<and> get_expected_score_double pw e2 (rating e1) = Inr E2
          \<longrightarrow> \<bar>E1 + E2 - 1\<bar> \<le> 2 powr (- 48)"
    using expected_scores_double_sum [OF assms, of e1 e2 E1 E2] by blast
  have ret: "\<bar>rating e2 - rating e1\<bar> \<le> 123200
          \<longrightarrow> (\<exists>F1 F2. get_expected_score_double pw e1 (rating e2) = Inr F1
                  \<and> get_expected_score_double pw e2 (rating e1) = Inr F2
                  \<and> \<bar>F1 - get_expected_score e1 (rating e2)\<bar> \<le> 2 powr (- 40)
                  \<and> \<bar>F2 - get_expected_score e2 (rating e1)\<bar> \<le> 2 powr (- 40))"
  proof
    assume gap: "\<bar>rating e2 - rating e1\<bar> \<le> 123200"
    have g1: "- 4294967296 \<le> rating e2 - rating e1" "rating e2 - rating e1 \<le> 123200"
      and g2: "- 4294967296 \<le> rating e1 - rating e2" "rating e1 - rating e2 \<le> 123200"
      using gap by linarith+
    obtain F1 where F1: "get_expected_score_double pw e1 (rating e2) = Inr F1"
      using expected_score_double_returns [OF assms g1] by blast
    obtain F2 where F2: "get_expected_score_double pw e2 (rating e1) = Inr F2"
      using expected_score_double_returns [OF assms g2] by blast
    have "\<bar>F1 - get_expected_score e1 (rating e2)\<bar> \<le> 2 powr (- 40)"
      using assms F1 g1 by (rule expected_score_double_exact)
    moreover have "\<bar>F2 - get_expected_score e2 (rating e1)\<bar> \<le> 2 powr (- 40)"
      using assms F2 g2 by (rule expected_score_double_exact)
    ultimately show "\<exists>F1 F2. get_expected_score_double pw e1 (rating e2) = Inr F1
                  \<and> get_expected_score_double pw e2 (rating e1) = Inr F2
                  \<and> \<bar>F1 - get_expected_score e1 (rating e2)\<bar> \<le> 2 powr (- 40)
                  \<and> \<bar>F2 - get_expected_score e2 (rating e1)\<bar> \<le> 2 powr (- 40)"
      using F1 F2 by blast
  qed
  from expected_score_complement [of e1 e2]
    expected_score_pos [of e1 "rating e2"] expected_score_less_one [of e1 "rating e2"]
    expected_score_pos [of e2 "rating e1"] expected_score_less_one [of e2 "rating e1"]
    range sum ret
  show ?thesis by (intro conjI)
qed

theorem expected_scores_double_complementary_witness:
  "pow_accurate pow_rounded
   \<and> get_expected_score_double pow_rounded (Elo_init (Some 2400) None 0 None)
        (rating (Elo_init (Some 1200) None 0 None)) = Inr (8998201053687306 / 2 ^ 53)
   \<and> get_expected_score_double pow_rounded (Elo_init (Some 1200) None 0 None)
        (rating (Elo_init (Some 2400) None 0 None)) = Inr (4607078939487900 / 2 ^ 62)
   \<and> \<bar>rating (Elo_init (Some 1200) None 0 None) - rating (Elo_init (Some 2400) None 0 None)\<bar>
       \<le> 123200
   \<and> \<bar>8998201053687306 / 2 ^ 53 + 4607078939487900 / 2 ^ 62 - 1 :: real\<bar> \<le> 2 powr (- 48)
   \<and> \<bar>8998201053687306 / 2 ^ 53
        - get_expected_score (Elo_init (Some 2400) None 0 None)
            (rating (Elo_init (Some 1200) None 0 None))\<bar> \<le> 2 powr (- 40)"
proof -
  define e1 where "e1 = Elo_init (Some 2400) None 0 None"
  define e2 where "e2 = Elo_init (Some 1200) None 0 None"
  have v: "rating e1 = 2400" "rating e2 = 1200" by (simp_all add: e1_def e2_def Elo_init_def)
  have r1: "get_expected_score_double pow_rounded e1 (rating e2) = Inr (8998201053687306 / 2 ^ 53)"
    unfolding v using expected_score_double_2400_1200 by (simp only: e1_def)
  have r2: "get_expected_score_double pow_rounded e2 (rating e1) = Inr (4607078939487900 / 2 ^ 62)"
    unfolding v using expected_score_double_1200_2400 by (simp only: e2_def)
  have gap: "\<bar>rating e2 - rating e1\<bar> \<le> 123200" by (simp add: v)
  note law = expected_scores_double_complementary [OF pow_rounded_accurate,
      of e1 e2 "8998201053687306 / 2 ^ 53" "4607078939487900 / 2 ^ 62"]
  have sum: "\<bar>8998201053687306 / 2 ^ 53 + 4607078939487900 / 2 ^ 62 - 1 :: real\<bar> \<le> 2 powr (- 48)"
    using law r1 r2 by blast
  have "\<exists>F1 F2. get_expected_score_double pow_rounded e1 (rating e2) = Inr F1
                  \<and> get_expected_score_double pow_rounded e2 (rating e1) = Inr F2
                  \<and> \<bar>F1 - get_expected_score e1 (rating e2)\<bar> \<le> 2 powr (- 40)
                  \<and> \<bar>F2 - get_expected_score e2 (rating e1)\<bar> \<le> 2 powr (- 40)"
    using law gap by blast
  then have close: "\<bar>8998201053687306 / 2 ^ 53 - get_expected_score e1 (rating e2)\<bar> \<le> 2 powr (- 40)"
    unfolding r1 by blast
  from pow_rounded_accurate r1 r2 gap sum close show ?thesis
    unfolding e1_def e2_def by (intro conjI)
qed

text \<open>
  The claim C10 fails on the code. For players rated 2400 and 1200 the two scores
  returned are the doubles \<open>8998201053687306 / 2 ^ 53\<close> (0.9990009990009991) and
  \<open>4607078939487900 / 2 ^ 62\<close> (0.000999000999000999), whose sum is above 1 by
  \<open>167 / 2 ^ 60\<close>. For a player rated 8000 against an opponent rated 0,
  \<^verbatim>\<open>1 + 10 ** -20.0\<close> is the double 1.0 and the score returned is 1.0, not a number
  below 1.
\<close>

theorem expected_score_double_counterexample:
  "get_expected_score_double pow_rounded (Elo_init (Some 2400) None 0 None) 1200
     = Inr (8998201053687306 / 2 ^ 53)
   \<and> get_expected_score_double pow_rounded (Elo_init (Some 1200) None 0 None) 2400
       = Inr (4607078939487900 / 2 ^ 62)
   \<and> (8998201053687306 / 2 ^ 53 :: real) + 4607078939487900 / 2 ^ 62 = 1 + 167 / 2 ^ 60
   \<and> get_expected_score_double pow_rounded (Elo_init (Some 8000) None 0 None) 0 = Inr 1"
proof -
  have "(8998201053687306 / 2 ^ 53 :: real) + 4607078939487900 / 2 ^ 62 = 1 + 167 / 2 ^ 60"
    by simp
  then show ?thesis
    using expected_score_double_2400_1200 expected_score_double_1200_2400
      expected_score_double_8000
    by (intro conjI)
qed

end
